theory Spec2Isabelle
  imports Complex_Main "HOL-Library.Word"
begin

section \<open>The process object of \<open>src/ocijail/process.cpp\<close>\<close>

text \<open>
  The class \<open>ocijail::process\<close> is declared in \<open>ocijail/process.h\<close>; its
  members are read off their uses in \<open>process.cpp\<close>. The trailing underscore of
  the member names (\<open>cwd_\<close>, \<open>args_\<close>, ...) is dropped, since a name of a HOL
  term cannot end in one. \<open>uid_t\<close> and \<open>gid_t\<close> are unsigned 32-bit integers and
  \<open>mode_t\<close> is an unsigned 16-bit integer on the target platform (FreeBSD).
\<close>

type_synonym uid_t = "32 word"
type_synonym gid_t = "32 word"
type_synonym mode_t = "16 word"

record process =
  console_socket :: "string option"
  detach :: bool
  preserve_fds :: int
  cwd :: string
  args :: "string list"
  env :: "string list"
  uid :: uid_t
  gid :: gid_t
  umask :: mode_t
  gids :: "gid_t list"
  terminal :: bool

subsection \<open>Errors\<close>

text \<open>
  Every \<open>throw\<close> of the source is a value of \<open>error\<close>:
  \<^item> \<open>MalformedConfig m\<close>: a call \<open>malformed_config(m)\<close>;
  \<^item> \<open>ConfigurationConflict m\<close>: \<open>throw std::runtime_error{m}\<close>, written out in
    the constructor (lines 119, 124, 129);
  \<^item> \<open>SystemError e m\<close>: \<open>throw std::system_error{e, std::system_category(), m}\<close>;
  \<^item> \<open>FilesystemError e path\<close>: the \<open>std::filesystem::filesystem_error\<close> that the
    throwing overloads of \<open>fs::is_socket\<close> and \<open>fs::is_regular_file\<close> raise when
    the status of the path cannot be read for a reason other than the file not being there;
  \<^item> \<open>AssertionFailure\<close>: a failed \<open>assert\<close>, which aborts the process;
  \<^item> \<open>OutOfRange\<close>: \<open>args_[0]\<close> read on an empty vector, which the constructor
    excludes.
\<close>

datatype error =
    MalformedConfig string
  | ConfigurationConflict string
  | SystemError int string
  | FilesystemError int string
  | AssertionFailure
  | OutOfRange

text \<open>The values of \<open>errno\<close> that the source names.\<close>

definition ENOENT :: int where "ENOENT = 2"
definition EACCES :: int where "EACCES = 13"

text \<open>
  A system call that reports failure through its return value returns 0, or -1 with
  \<open>errno\<close> set. \<open>rv\<close> is the returned integer, which the source compares with 0.
\<close>

datatype sysres = Success | Failure int

fun rv :: "sysres \<Rightarrow> int" where
  "rv Success = 0"
| "rv (Failure e) = - 1"

section \<open>Identity drop: \<open>process::set_uid_gid\<close> (lines 248-265)\<close>

text \<open>
  The four calls go to the kernel, which answers each of them. \<open>umask(2)\<close> returns the
  previous mask, a \<open>mode_t\<close>, and has no error return. The state threaded through
  the sequence is the list of calls made so far and the current value of \<open>errno\<close>.
\<close>

datatype id_call =
    Setgroups "gid_t list"
  | Setgid gid_t
  | Setuid uid_t
  | Umask mode_t

record kernel =
  k_setgroups :: "gid_t list \<Rightarrow> sysres"
  k_setgid :: "gid_t \<Rightarrow> sysres"
  k_setuid :: "uid_t \<Rightarrow> sysres"
  k_umask :: "mode_t \<Rightarrow> mode_t"

record kstate =
  calls :: "id_call list"
  errno :: int

definition syscall :: "sysres \<Rightarrow> id_call \<Rightarrow> kstate \<Rightarrow> int \<times> kstate" where
  "syscall r c s =
     (case r of
        Success \<Rightarrow> (rv r, s\<lparr>calls := calls s @ [c]\<rparr>)
      | Failure e \<Rightarrow> (rv r, s\<lparr>calls := calls s @ [c], errno := e\<rparr>))"

definition sys_setgroups :: "kernel \<Rightarrow> gid_t list \<Rightarrow> kstate \<Rightarrow> int \<times> kstate" where
  "sys_setgroups k gs s = syscall (k_setgroups k gs) (Setgroups gs) s"

definition sys_setgid :: "kernel \<Rightarrow> gid_t \<Rightarrow> kstate \<Rightarrow> int \<times> kstate" where
  "sys_setgid k g s = syscall (k_setgid k g) (Setgid g) s"

definition sys_setuid :: "kernel \<Rightarrow> uid_t \<Rightarrow> kstate \<Rightarrow> int \<times> kstate" where
  "sys_setuid k u s = syscall (k_setuid k u) (Setuid u) s"

definition sys_umask :: "kernel \<Rightarrow> mode_t \<Rightarrow> kstate \<Rightarrow> int \<times> kstate" where
  "sys_umask k m s = (uint (k_umask k m), s\<lparr>calls := calls s @ [Umask m]\<rparr>)"

definition set_uid_gid :: "kernel \<Rightarrow> process \<Rightarrow> kstate \<Rightarrow> (error + unit) \<times> kstate" where
  "set_uid_gid k p s0 =
     (case sys_setgroups k (gids p) s0 of (r1, s1) \<Rightarrow>
      if r1 < 0 then (Inl (SystemError (errno s1) ''error calling setgroups''), s1)
      else
     (case sys_setgid k (gid p) s1 of (r2, s2) \<Rightarrow>
      if r2 < 0 then (Inl (SystemError (errno s2) ''error calling getgid''), s2)
      else
     (case sys_setuid k (uid p) s2 of (r3, s3) \<Rightarrow>
      if r3 < 0 then (Inl (SystemError (errno s3) ''error calling setuid''), s3)
      else
     (case sys_umask k (umask p) s3 of (r4, s4) \<Rightarrow>
      if r4 < 0 then (Inl (SystemError (errno s4) ''error calling umask''), s4)
      else (Inr (), s4)))))"

text \<open>The four operations of the identity drop, in the order of the specification.\<close>

definition identity_ops :: "process \<Rightarrow> id_call list" where
  "identity_ops p = [Setgroups (gids p), Setgid (gid p), Setuid (uid p), Umask (umask p)]"

text \<open>The number of operations attempted: up to and including the first that fails.\<close>

definition attempted :: "kernel \<Rightarrow> process \<Rightarrow> nat" where
  "attempted k p =
     (if k_setgroups k (gids p) \<noteq> Success then 1
      else if k_setgid k (gid p) \<noteq> Success then 2
      else if k_setuid k (uid p) \<noteq> Success then 3
      else 4)"

definition is_system_error :: "error + unit \<Rightarrow> bool" where
  "is_system_error r = (case r of Inl (SystemError e m) \<Rightarrow> True | _ \<Rightarrow> False)"

section \<open>The environment: \<open>process::getenv\<close> and \<open>process::setenv\<close> (lines 134-163)\<close>

text \<open>
  \<open>find_char c s\<close> is \<open>s.find(c)\<close> on a \<open>std::string_view\<close>: the index of the
  first occurrence, \<open>None\<close> for \<open>npos\<close>. \<open>substr_to s pos\<close> is
  \<open>s.substr(0, pos)\<close>, which is all of \<open>s\<close> when \<open>pos\<close> is \<open>npos\<close>.
\<close>

primrec find_char :: "char \<Rightarrow> string \<Rightarrow> nat option" where
  "find_char c [] = None"
| "find_char c (x # xs) = (if x = c then Some 0 else map_option Suc (find_char c xs))"

definition substr_to :: "string \<Rightarrow> nat option \<Rightarrow> string" where
  "substr_to s pos = (case pos of None \<Rightarrow> s | Some n \<Rightarrow> take n s)"

text \<open>The loop of \<open>getenv\<close> over \<open>env_\<close>, from the first entry on.\<close>

fun getenv_scan :: "string list \<Rightarrow> string \<Rightarrow> string option" where
  "getenv_scan [] key = None"
| "getenv_scan (e # es) key =
     (let pos = find_char CHR ''='' e in
      if key = substr_to e pos then
        (case pos of None \<Rightarrow> Some [] | Some n \<Rightarrow> Some (drop (n + 1) e))
      else getenv_scan es key)"

definition getenv :: "process \<Rightarrow> string \<Rightarrow> string option" where
  "getenv p key = getenv_scan (env p) key"

text \<open>
  The loop of \<open>setenv\<close>: the entries are visited in order; the \<open>assert\<close> is checked
  at each entry visited, before the comparison; a matching entry is overwritten and the
  function returns; after the last entry \<open>keyval\<close> is pushed at the back.
\<close>

fun setenv_scan :: "string list \<Rightarrow> string \<Rightarrow> string \<Rightarrow> error + string list" where
  "setenv_scan [] key keyval = Inr [keyval]"
| "setenv_scan (e # es) key keyval =
     (let pos = find_char CHR ''='' e in
      if pos = None then Inl AssertionFailure
      else if key = substr_to e pos then Inr (keyval # es)
      else (case setenv_scan es key keyval of
              Inl x \<Rightarrow> Inl x
            | Inr es' \<Rightarrow> Inr (e # es')))"

definition setenv :: "process \<Rightarrow> string \<Rightarrow> string \<Rightarrow> error + process" where
  "setenv p key val =
     (let keyval = key @ ''='' @ val in
      case setenv_scan (env p) key keyval of
        Inl x \<Rightarrow> Inl x
      | Inr es \<Rightarrow> Inr (p\<lparr>env := es\<rparr>))"

text \<open>
  The key of an entry, as both scans read it: what precedes the first \<open>=\<close>, and the
  whole entry if it has none.
\<close>

definition env_key :: "string \<Rightarrow> string" where
  "env_key e = takeWhile (\<lambda>c. c \<noteq> CHR ''='') e"

section \<open>The configuration document\<close>

text \<open>
  A value of \<open>nlohmann::json\<close>. Integers of both signs are \<open>JInt\<close>; an object is the
  list of its members, read with \<open>map_of\<close> (the library keeps one value per key).
  \<open>json_at\<close> is \<open>operator[]\<close> with a string key: the source applies it to objects
  only, where a missing key reads as null.
\<close>

datatype json =
    JNull
  | JBool bool
  | JInt int
  | JFloat real
  | JString string
  | JArray "json list"
  | JObject "(string \<times> json) list"

definition is_null :: "json \<Rightarrow> bool" where
  "is_null j = (case j of JNull \<Rightarrow> True | _ \<Rightarrow> False)"

definition is_object :: "json \<Rightarrow> bool" where
  "is_object j = (case j of JObject kvs \<Rightarrow> True | _ \<Rightarrow> False)"

definition is_array :: "json \<Rightarrow> bool" where
  "is_array j = (case j of JArray xs \<Rightarrow> True | _ \<Rightarrow> False)"

definition is_string :: "json \<Rightarrow> bool" where
  "is_string j = (case j of JString s \<Rightarrow> True | _ \<Rightarrow> False)"

definition is_boolean :: "json \<Rightarrow> bool" where
  "is_boolean j = (case j of JBool b \<Rightarrow> True | _ \<Rightarrow> False)"

definition is_number :: "json \<Rightarrow> bool" where
  "is_number j = (case j of JInt i \<Rightarrow> True | JFloat r \<Rightarrow> True | _ \<Rightarrow> False)"

definition contains :: "json \<Rightarrow> string \<Rightarrow> bool" where
  "contains j key = (case j of JObject kvs \<Rightarrow> map_of kvs key \<noteq> None | _ \<Rightarrow> False)"

definition json_at :: "json \<Rightarrow> string \<Rightarrow> json" where
  "json_at j key =
     (case j of
        JObject kvs \<Rightarrow> (case map_of kvs key of Some v \<Rightarrow> v | None \<Rightarrow> JNull)
      | _ \<Rightarrow> JNull)"

definition elements :: "json \<Rightarrow> json list" where
  "elements j = (case j of JArray xs \<Rightarrow> xs | _ \<Rightarrow> [])"

definition get_string :: "json \<Rightarrow> string" where
  "get_string j = (case j of JString s \<Rightarrow> s | _ \<Rightarrow> [])"

definition get_bool :: "json \<Rightarrow> bool" where
  "get_bool j = (case j of JBool b \<Rightarrow> b | _ \<Rightarrow> False)"

text \<open>
  The conversion of a number to \<open>uid_t\<close> or \<open>gid_t\<close> is a \<open>static_cast\<close>: an
  integer is reduced modulo \<open>2 ^ 32\<close>, a floating-point number loses its fraction.
\<close>

definition trunc_zero :: "real \<Rightarrow> int" where
  "trunc_zero r = (if r < 0 then \<lceil>r\<rceil> else \<lfloor>r\<rfloor>)"

definition get_u32 :: "json \<Rightarrow> 32 word" where
  "get_u32 j =
     (case j of JInt i \<Rightarrow> word_of_int i | JFloat r \<Rightarrow> word_of_int (trunc_zero r) | _ \<Rightarrow> 0)"

section \<open>Construction: \<open>process::process\<close> (lines 19-132)\<close>

text \<open>
  Modelled from the spec: \<open>malformed_config\<close> is defined outside \<open>process.cpp\<close>.
  It does not return: it fails with the error kind MalformedConfig, carrying the message,
  which names the offending field.
\<close>

definition malformed_config :: "string \<Rightarrow> error + 'a" where
  "malformed_config m = Inl (MalformedConfig m)"

text \<open>Sequencing: the first error ends the constructor.\<close>

definition bind_err :: "error + 'a \<Rightarrow> ('a \<Rightarrow> error + 'b) \<Rightarrow> error + 'b" where
  "bind_err m f = (case m of Inl e \<Rightarrow> Inl e | Inr x \<Rightarrow> f x)"

text \<open>The loops over \<open>args\<close> and \<open>env\<close> (lines 49-54, 102-107).\<close>

fun get_strings :: "string \<Rightarrow> json list \<Rightarrow> error + string list" where
  "get_strings m [] = Inr []"
| "get_strings m (a # as) =
     (if \<not> is_string a then malformed_config m
      else bind_err (get_strings m as) (\<lambda>ss. Inr (get_string a # ss)))"

text \<open>The loop over \<open>additionalGids\<close> (lines 81-88).\<close>

fun get_gids :: "json list \<Rightarrow> error + gid_t list" where
  "get_gids [] = Inr []"
| "get_gids (g # gs) =
     (if \<not> is_number g then
        malformed_config ''process.user.additionalGids must be an array of numbers''
      else bind_err (get_gids gs) (\<lambda>ws. Inr (get_u32 g # ws)))"

text \<open>
  The default member initialisers of \<open>uid_\<close>, \<open>gid_\<close>, \<open>umask_\<close> and
  \<open>terminal_\<close> are written in \<open>process.h\<close>; they are parameters here.
\<close>

record member_init =
  init_uid :: uid_t
  init_gid :: gid_t
  init_umask :: mode_t
  init_terminal :: bool

text \<open>Lines 26-37.\<close>

definition ctor_cwd :: "json \<Rightarrow> error + string" where
  "ctor_cwd process_json =
     (if \<not> is_object process_json then malformed_config ''process must be an object''
      else if \<not> contains process_json ''cwd'' then malformed_config ''no process.cwd''
      else let process_json_cwd = json_at process_json ''cwd'' in
        if \<not> is_string process_json_cwd then malformed_config ''process.cwd must be a string''
        else Inr (get_string process_json_cwd))"

text \<open>Lines 39-54.\<close>

definition ctor_args :: "json \<Rightarrow> error + string list" where
  "ctor_args process_json =
     (if \<not> contains process_json ''args'' then malformed_config ''no process.args''
      else let config_args = json_at process_json ''args'' in
        if \<not> is_array config_args then malformed_config ''process.args must be an array''
        else if length (elements config_args) = 0 then
          malformed_config ''process.args must have at least one element''
        else get_strings ''process.args must be an array of strings'' (elements config_args))"

text \<open>
  Lines 56-95; the result is \<open>(uid_, gid_, umask_, gids_)\<close>. The assignment
  \<open>umask_ = user["umask"]\<close> of line 72 follows the call of \<open>malformed_config\<close>
  inside the same block, so no path reaches it: on every path \<open>umask_\<close> keeps its
  initial value.
\<close>

definition ctor_user ::
  "member_init \<Rightarrow> json \<Rightarrow> error + (uid_t \<times> gid_t \<times> mode_t \<times> gid_t list)" where
  "ctor_user d process_json =
     (if contains process_json ''user'' then
        let user = json_at process_json ''user'' in
        if \<not> is_null user then
          if \<not> is_object user then malformed_config ''process.user must be an object''
          else if \<not> is_number (json_at user ''uid'') then
            malformed_config ''process.user.uid must be a number''
          else let uid' = get_u32 (json_at user ''uid'') in
          if \<not> is_number (json_at user ''gid'') then
            malformed_config ''process.user.gid must be a number''
          else let gid' = get_u32 (json_at user ''gid'') in
          if contains user ''umask'' \<and> \<not> is_number (json_at user ''umask'') then
            malformed_config ''process.user.umask must be a number''
          else let gids1 = [gid'] in
          if contains user ''additionalGids'' then
            let gids' = json_at user ''additionalGids'' in
            if \<not> is_array gids' then
              malformed_config ''process.user.additionalGids must be an array''
            else bind_err (get_gids (elements gids'))
                   (\<lambda>ws. Inr (uid', gid', init_umask d, gids1 @ ws))
          else Inr (uid', gid', init_umask d, gids1)
        else Inr (init_uid d, init_gid d, init_umask d, [])
      else Inr (0, 0, init_umask d, [0]))"

text \<open>Lines 97-108.\<close>

definition ctor_env :: "json \<Rightarrow> error + string list" where
  "ctor_env process_json =
     (if contains process_json ''env'' then
        let config_env = json_at process_json ''env'' in
        if \<not> is_array config_env then malformed_config ''process.env must be an array''
        else get_strings ''process.env must be an array of strings'' (elements config_env)
      else Inr [])"

text \<open>Lines 110-115.\<close>

definition ctor_terminal :: "member_init \<Rightarrow> json \<Rightarrow> error + bool" where
  "ctor_terminal d process_json =
     (if contains process_json ''terminal'' then
        if \<not> is_boolean (json_at process_json ''terminal'') then
          malformed_config ''process.terminal must be a boolean''
        else Inr (get_bool (json_at process_json ''terminal''))
      else Inr (init_terminal d))"

text \<open>
  The file system, as the program observes it: \<open>fs_status\<close> is the result of
  \<open>std::filesystem::status\<close> (the type of the file, \<open>NotFound\<close> when there is none,
  or the error code when the status cannot be read), \<open>fs_eaccess\<close> the result of
  \<open>eaccess(path, X_OK)\<close>.
\<close>

datatype file_type =
  NotFound | Regular | Directory | Symlink | BlockDevice | CharDevice | Fifo | Socket
  | UnknownType

record filesystem =
  fs_status :: "string \<Rightarrow> int + file_type"
  fs_eaccess :: "string \<Rightarrow> sysres"

definition is_socket :: "filesystem \<Rightarrow> string \<Rightarrow> error + bool" where
  "is_socket fs path =
     (case fs_status fs path of
        Inl e \<Rightarrow> Inl (FilesystemError e path)
      | Inr t \<Rightarrow> Inr (t = Socket))"

text \<open>Lines 19-115: the member initialiser list and the checks of the document.\<close>

definition process_fields ::
  "member_init \<Rightarrow> json \<Rightarrow> string option \<Rightarrow> bool \<Rightarrow> int \<Rightarrow> error + process" where
  "process_fields d process_json console_socket' detach' preserve_fds' =
     bind_err (ctor_cwd process_json) (\<lambda>c.
     bind_err (ctor_args process_json) (\<lambda>a.
     bind_err (ctor_user d process_json) (\<lambda>(u, g, m, gs).
     bind_err (ctor_env process_json) (\<lambda>e.
     bind_err (ctor_terminal d process_json) (\<lambda>t.
     Inr \<lparr>console_socket = console_socket', detach = detach', preserve_fds = preserve_fds',
          cwd = c, args = a, env = e, uid = u, gid = g, umask = m, gids = gs,
          terminal = t\<rparr>)))))"

text \<open>Lines 116-131: the rule that relates \<open>terminal_\<close>, \<open>detach_\<close> and the socket.\<close>

definition ctor_console :: "filesystem \<Rightarrow> process \<Rightarrow> error + unit" where
  "ctor_console fs p =
     (if terminal p then
        if detach p then
          (case console_socket p of
             None \<Rightarrow> Inl (ConfigurationConflict
               ''--console-socket is required when detached if process.terminal is true'')
           | Some path \<Rightarrow>
               bind_err (is_socket fs path) (\<lambda>b.
                 if \<not> b then Inl (ConfigurationConflict
                   ''--console-socket must be a path to a local domain socket'')
                 else Inr ()))
        else Inr ()
      else if console_socket p \<noteq> None then
        Inl (ConfigurationConflict ''--console-socket provided but process.terminal is false'')
      else Inr ())"

definition process_ctor ::
  "filesystem \<Rightarrow> member_init \<Rightarrow> json \<Rightarrow> string option \<Rightarrow> bool \<Rightarrow> int \<Rightarrow> error + process"
  where
  "process_ctor fs d process_json console_socket' detach' preserve_fds' =
     bind_err (process_fields d process_json console_socket' detach' preserve_fds') (\<lambda>p.
     bind_err (ctor_console fs p) (\<lambda>u. Inr p))"

subsection \<open>Documents that differ in \<open>user.umask\<close> only\<close>

text \<open>
  Two documents agree on a list of keys when each key is present in both or in neither,
  with the same value. \<open>differ_in_umask_only\<close> holds of two documents whose \<open>user\<close>
  is an object and that agree on every key the constructor reads, except \<open>umask\<close>
  of \<open>user\<close>.
\<close>

definition agree_on :: "string list \<Rightarrow> json \<Rightarrow> json \<Rightarrow> bool" where
  "agree_on ks j j' =
     list_all (\<lambda>k. contains j k = contains j' k \<and> json_at j k = json_at j' k) ks"

definition differ_in_umask_only :: "json \<Rightarrow> json \<Rightarrow> bool" where
  "differ_in_umask_only j j' =
     (agree_on [''cwd'', ''args'', ''env'', ''terminal''] j j'
      \<and> contains j ''user'' \<and> contains j' ''user''
      \<and> is_object (json_at j ''user'') \<and> is_object (json_at j' ''user'')
      \<and> agree_on [''uid'', ''gid'', ''additionalGids''] (json_at j ''user'') (json_at j' ''user''))"

definition numeric_or_absent :: "json \<Rightarrow> string \<Rightarrow> bool" where
  "numeric_or_absent u key = (\<not> contains u key \<or> is_number (json_at u key))"

section \<open>Command validation: \<open>process::validate\<close> (lines 165-206)\<close>

text \<open>
  \<open>path_append p q\<close> is \<open>p / q\<close> of \<open>std::filesystem::path\<close> on a POSIX system:
  an absolute \<open>q\<close> replaces \<open>p\<close>; otherwise a separator is put between them when
  \<open>p\<close> has a file name, that is when it is not empty and does not end in a separator.
\<close>

definition path_append :: "string \<Rightarrow> string \<Rightarrow> string" where
  "path_append p q =
     (if q \<noteq> [] \<and> hd q = CHR ''/'' then q
      else if p \<noteq> [] \<and> last p \<noteq> CHR ''/'' then p @ ''/'' @ q
      else p @ q)"

text \<open>
  The state threaded through validation: the calls made to the file system so far and
  the current \<open>errno\<close>.
\<close>

datatype fs_call = Eaccess string | Status string

record fstate =
  fs_calls :: "fs_call list"
  fs_errno :: int

definition eaccess :: "filesystem \<Rightarrow> string \<Rightarrow> fstate \<Rightarrow> int \<times> fstate" where
  "eaccess fs path s =
     (case fs_eaccess fs path of
        Success \<Rightarrow> (rv Success, s\<lparr>fs_calls := fs_calls s @ [Eaccess path]\<rparr>)
      | Failure e \<Rightarrow>
          (rv (Failure e), s\<lparr>fs_calls := fs_calls s @ [Eaccess path], fs_errno := e\<rparr>))"

definition is_regular_file ::
  "filesystem \<Rightarrow> string \<Rightarrow> fstate \<Rightarrow> (error + bool) \<times> fstate" where
  "is_regular_file fs path s =
     (case fs_status fs path of
        Inl e \<Rightarrow> (Inl (FilesystemError e path), s\<lparr>fs_calls := fs_calls s @ [Status path]\<rparr>)
      | Inr t \<Rightarrow> (Inr (t = Regular), s\<lparr>fs_calls := fs_calls s @ [Status path]\<rparr>))"

text \<open>
  The \<open>while\<close> loop of lines 180-194 over what is left of \<open>$PATH\<close>. The result is
  \<open>True\<close> when the loop leaves \<open>validate\<close> through the \<open>return\<close> of line 192.
\<close>

function path_search :: "filesystem \<Rightarrow> string \<Rightarrow> string \<Rightarrow> fstate \<Rightarrow> bool \<times> fstate" where
  "path_search fs cmd path s =
     (if length path > 0 then
        let pos = find_char CHR '':'' path;
            path_element = substr_to path pos;
            path' = (case pos of None \<Rightarrow> [] | Some n \<Rightarrow> drop (n + 1) path);
            abs_cmd = path_append path_element cmd
        in (case eaccess fs abs_cmd s of
              (r, s') \<Rightarrow> if r = 0 then (True, s') else path_search fs cmd path' s')
      else (False, s))"
  by pat_completeness auto
termination
  by (relation "measure (\<lambda>(fs, cmd, path, s). length path)")
     (auto split: option.splits)

text \<open>The error of lines 202-204; \<open>CHR 0x27\<close> is the single quote.\<close>

definition not_found :: "string \<Rightarrow> error" where
  "not_found a0 = SystemError ENOENT ([CHR 0x27] @ a0 @ [CHR 0x27] @ '' not found in $PATH'')"

definition validate :: "filesystem \<Rightarrow> process \<Rightarrow> fstate \<Rightarrow> (error + unit) \<times> fstate" where
  "validate fs p s =
     (case args p of
        [] \<Rightarrow> (Inl OutOfRange, s)
      | a0 # rest \<Rightarrow>
          if (case a0 of [] \<Rightarrow> False | c # cs \<Rightarrow> c = CHR ''/'') then
            let cmd = a0 in
            (case eaccess fs cmd s of (r, s1) \<Rightarrow>
               if r < 0 then (Inl (SystemError (fs_errno s1) a0), s1)
               else
                 (case is_regular_file fs cmd s1 of
                    (Inl e, s2) \<Rightarrow> (Inl e, s2)
                  | (Inr b, s2) \<Rightarrow>
                      if \<not> b then (Inl (SystemError EACCES a0), s2) else (Inr (), s2)))
          else
            let cmd = a0;
                lookup_path = getenv p ''PATH''
            in
            (case (case lookup_path of
                     Some path \<Rightarrow> path_search fs cmd path s
                   | None \<Rightarrow> (False, s)) of
               (found, s1) \<Rightarrow>
                 if found then (Inr (), s1)
                 else
                   let workdir_cmd = path_append (cwd p) cmd in
                   (case eaccess fs workdir_cmd s1 of (r, s2) \<Rightarrow>
                      if r = 0 then
                        (case is_regular_file fs workdir_cmd s2 of
                           (Inl e, s3) \<Rightarrow> (Inl e, s3)
                         | (Inr b, s3) \<Rightarrow>
                             if b then (Inr (), s3) else (Inl (not_found a0), s3))
                      else (Inl (not_found a0), s2))))"

subsection \<open>The two stages of the bare-name branch\<close>

text \<open>
  The branch for a bare name is the search followed by the fallback. Both are named here,
  and shown below to compose to \<open>validate\<close>.
\<close>

text \<open>The search of \<open>$PATH\<close> as \<open>validate\<close> runs it, absent variable included.\<close>

definition search :: "filesystem \<Rightarrow> process \<Rightarrow> string \<Rightarrow> fstate \<Rightarrow> bool \<times> fstate" where
  "search fs p cmd s =
     (case getenv p ''PATH'' of Some path \<Rightarrow> path_search fs cmd path s | None \<Rightarrow> (False, s))"

text \<open>The fallback of lines 197-204, from the state the search leaves.\<close>

definition fallback :: "filesystem \<Rightarrow> process \<Rightarrow> string \<Rightarrow> fstate \<Rightarrow> (error + unit) \<times> fstate" where
  "fallback fs p a0 s1 =
     (let workdir_cmd = path_append (cwd p) a0 in
      (case eaccess fs workdir_cmd s1 of (r, s2) \<Rightarrow>
         if r = 0 then
           (case is_regular_file fs workdir_cmd s2 of
              (Inl e, s3) \<Rightarrow> (Inl e, s3)
            | (Inr b, s3) \<Rightarrow> if b then (Inr (), s3) else (Inl (not_found a0), s3))
         else (Inl (not_found a0), s2)))"

subsection \<open>The candidates of the search\<close>

text \<open>
  \<open>split_colon\<close> cuts a string at every colon. \<open>path_elements\<close> are the pieces that
  the loop visits: all of them, the empty ones included, except an empty piece at the very
  end (the loop stops when nothing is left). \<open>path_candidates\<close> are the paths tested for
  a command, and \<open>tested\<close> the candidates up to and including the first one with
  execute access.
\<close>

fun split_colon :: "string \<Rightarrow> string list" where
  "split_colon [] = [[]]"
| "split_colon (c # cs) =
     (if c = CHR '':'' then [] # split_colon cs
      else (case split_colon cs of [] \<Rightarrow> [[c]] | s # ss \<Rightarrow> (c # s) # ss))"

definition path_elements :: "string \<Rightarrow> string list" where
  "path_elements path =
     (let ss = split_colon path in if last ss = [] then butlast ss else ss)"

definition path_candidates :: "process \<Rightarrow> string \<Rightarrow> string list" where
  "path_candidates p cmd =
     (case getenv p ''PATH'' of
        None \<Rightarrow> []
      | Some path \<Rightarrow> map (\<lambda>e. path_append e cmd) (path_elements path))"

definition x_ok :: "filesystem \<Rightarrow> string \<Rightarrow> bool" where
  "x_ok fs path = (fs_eaccess fs path = Success)"

definition tested :: "filesystem \<Rightarrow> string list \<Rightarrow> string list" where
  "tested fs cs =
     takeWhile (\<lambda>c. \<not> x_ok fs c) cs @ take 1 (dropWhile (\<lambda>c. \<not> x_ok fs c) cs)"

definition is_bare :: "string \<Rightarrow> bool" where
  "is_bare a0 = (case a0 of [] \<Rightarrow> True | c # cs \<Rightarrow> c \<noteq> CHR ''/'')"

text \<open>
  The candidates as the specification words them: \<open>segment/args[0]\<close> for the non-empty
  segments only.
\<close>

definition spec_candidates :: "string \<Rightarrow> string \<Rightarrow> string list" where
  "spec_candidates path cmd =
     map (\<lambda>e. path_append e cmd) (filter (\<lambda>e. e \<noteq> []) (split_colon path))"

section \<open>Wiring of the standard streams in \<open>process::exec\<close> (lines 300-310)\<close>

text \<open>
  The descriptor table maps a descriptor to the open file it refers to and its
  close-on-exec flag; a closed descriptor maps to \<open>None\<close>.
  \<^item> \<open>dup2(oldfd, newfd)\<close> fails without effect when \<open>oldfd\<close> is not open; otherwise
    \<open>newfd\<close> refers to the file of \<open>oldfd\<close>, with the flag cleared. The source ignores
    the return value.
  \<^item> \<open>close_range(lowfd, highfd, flags)\<close> takes unsigned bounds and fails without
    effect when \<open>highfd < lowfd\<close>. With no flag it closes the open descriptors of the
    range; with \<open>CLOSE_RANGE_CLOEXEC\<close> it sets their close-on-exec flag and closes
    none.
\<close>

record fd_entry =
  ofile :: nat
  cloexec :: bool

type_synonym fd_table = "int \<Rightarrow> fd_entry option"

datatype fd_call = Dup2 int int | CloseRange int int int

record fdstate =
  fd_calls :: "fd_call list"
  fds :: fd_table

definition INT_MAX :: int where "INT_MAX = 2147483647"

definition CLOSE_RANGE_CLOEXEC :: int where "CLOSE_RANGE_CLOEXEC = 4"

text \<open>The conversion of an \<open>int\<close> argument to \<open>unsigned int\<close>.\<close>

definition to_u_int :: "int \<Rightarrow> int" where
  "to_u_int i = i mod 2 ^ 32"

definition dup2 :: "int \<Rightarrow> int \<Rightarrow> fdstate \<Rightarrow> fdstate" where
  "dup2 oldfd newfd s =
     s\<lparr>fd_calls := fd_calls s @ [Dup2 oldfd newfd],
       fds := (if oldfd < 0 then fds s
               else case fds s oldfd of
                 None \<Rightarrow> fds s
               | Some e \<Rightarrow> if oldfd = newfd then fds s
                           else (fds s)(newfd := Some (e\<lparr>cloexec := False\<rparr>)))\<rparr>"

definition close_range :: "int \<Rightarrow> int \<Rightarrow> int \<Rightarrow> fdstate \<Rightarrow> fdstate" where
  "close_range lowfd highfd flags s =
     s\<lparr>fd_calls := fd_calls s @ [CloseRange lowfd highfd flags],
       fds := (if highfd < lowfd then fds s
               else if flags = CLOSE_RANGE_CLOEXEC then
                 (\<lambda>fd. if lowfd \<le> fd \<and> fd \<le> highfd
                       then map_option (\<lambda>e. e\<lparr>cloexec := True\<rparr>) (fds s fd)
                       else fds s fd)
               else if flags = 0 then
                 (\<lambda>fd. if lowfd \<le> fd \<and> fd \<le> highfd then None else fds s fd)
               else fds s)\<rparr>"

definition exec_stdio :: "process \<Rightarrow> int \<Rightarrow> int \<Rightarrow> int \<Rightarrow> fdstate \<Rightarrow> fdstate" where
  "exec_stdio p stdin_fd stdout_fd stderr_fd s =
     (let s1 = (if stdin_fd \<noteq> 0 then dup2 stdin_fd 0 s else s);
          s2 = (if stdout_fd \<noteq> 1 then dup2 stdout_fd 1 s1 else s1);
          s3 = (if stderr_fd \<noteq> 2 then dup2 stderr_fd 2 s2 else s2)
      in close_range (to_u_int (3 + preserve_fds p)) (to_u_int INT_MAX) CLOSE_RANGE_CLOEXEC s3)"

text \<open>The calls of \<open>dup2\<close> alone: the state before the call of \<open>close_range\<close>.\<close>

definition wired :: "int \<Rightarrow> int \<Rightarrow> int \<Rightarrow> fdstate \<Rightarrow> fdstate" where
  "wired fin fout ferr s =
     (let s1 = (if fin \<noteq> 0 then dup2 fin 0 s else s);
          s2 = (if fout \<noteq> 1 then dup2 fout 1 s1 else s1)
      in if ferr \<noteq> 2 then dup2 ferr 2 s2 else s2)"

definition is_open :: "fdstate \<Rightarrow> int \<Rightarrow> bool" where
  "is_open s fd = (fds s fd \<noteq> None)"

definition mark_cloexec :: "fd_entry option \<Rightarrow> fd_entry option" where
  "mark_cloexec x = map_option (\<lambda>e. e\<lparr>cloexec := True\<rparr>) x"

section \<open>Concrete inputs\<close>

text \<open>A process, and kernels that fail at a chosen call of the identity drop.\<close>

definition proc0 :: process where
  "proc0 = \<lparr>console_socket = None, detach = False, preserve_fds = 0, cwd = ''/'',
            args = [''/bin/sh''], env = [], uid = 1001, gid = 10, umask = 18,
            gids = [10, 100, 200], terminal = False\<rparr>"

definition kernel_ok :: kernel where
  "kernel_ok = \<lparr>k_setgroups = (\<lambda>gs. Success), k_setgid = (\<lambda>g. Success),
                k_setuid = (\<lambda>u. Success), k_umask = (\<lambda>m. 18)\<rparr>"

definition EPERM :: int where "EPERM = 1"

definition kernel_setgroups_fails :: kernel where
  "kernel_setgroups_fails = kernel_ok\<lparr>k_setgroups := (\<lambda>gs. Failure EPERM)\<rparr>"

definition kernel_setgid_fails :: kernel where
  "kernel_setgid_fails = kernel_ok\<lparr>k_setgid := (\<lambda>g. Failure EPERM)\<rparr>"

definition kernel_setuid_fails :: kernel where
  "kernel_setuid_fails = kernel_ok\<lparr>k_setuid := (\<lambda>u. Failure EPERM)\<rparr>"

definition kstate0 :: kstate where
  "kstate0 = \<lparr>calls = [], errno = 0\<rparr>"

definition init0 :: member_init where
  "init0 = \<lparr>init_uid = 0, init_gid = 0, init_umask = 63, init_terminal = False\<rparr>"

definition fs0 :: filesystem where
  "fs0 = \<lparr>fs_status = (\<lambda>p. if p = ''/run/console.sock'' then Inr Socket
                            else if p = ''/bin/true'' then Inr Regular
                            else if p = ''/bin'' then Inr Directory
                            else if p = ''/secret/x.sock'' then Inl EACCES
                            else Inr NotFound),
          fs_eaccess = (\<lambda>p. if p = ''/bin/true'' \<or> p = ''/bin'' then Success
                             else Failure ENOENT)\<rparr>"

text \<open>A file system where only the relative path \<open>true\<close> has execute access.\<close>

definition fs_relative :: filesystem where
  "fs_relative = \<lparr>fs_status = (\<lambda>p. if p = ''true'' then Inr Regular else Inr NotFound),
                  fs_eaccess = (\<lambda>p. if p = ''true'' then Success else Failure ENOENT)\<rparr>"

definition config_user :: "(string \<times> json) list" where
  "config_user = [(''uid'', JInt 1001), (''gid'', JInt 10), (''umask'', JInt 18),
                  (''additionalGids'', JArray [JInt 100, JInt 200])]"

definition config1 :: json where
  "config1 = JObject [(''cwd'', JString ''/tmp''), (''args'', JArray [JString ''true'']),
     (''user'', JObject config_user),
     (''env'', JArray [JString ''PATH=/nonexistent:/bin'', JString ''FOO'']),
     (''terminal'', JBool False)]"

definition config_tty :: json where
  "config_tty = JObject [(''cwd'', JString ''/tmp''), (''args'', JArray [JString ''true'']),
     (''terminal'', JBool True)]"

definition config_env :: "string list \<Rightarrow> json" where
  "config_env es = JObject [(''cwd'', JString ''/''), (''args'', JArray [JString ''sh'']),
     (''env'', JArray (map JString es))]"

text \<open>The document \<open>config1\<close> without its \<open>umask\<close>.\<close>

definition config_no_umask :: json where
  "config_no_umask = JObject [(''cwd'', JString ''/tmp''), (''args'', JArray [JString ''true'']),
     (''user'', JObject [(''uid'', JInt 1001), (''gid'', JInt 10),
                         (''additionalGids'', JArray [JInt 100, JInt 200])]),
     (''env'', JArray [JString ''PATH=/nonexistent:/bin'', JString ''FOO'']),
     (''terminal'', JBool False)]"

definition fstate0 :: fstate where
  "fstate0 = \<lparr>fs_calls = [], fs_errno = 0\<rparr>"

definition procv :: "string \<Rightarrow> string list \<Rightarrow> process" where
  "procv a es = proc0\<lparr>args := [a], env := es, cwd := ''/tmp''\<rparr>"

definition fdstate0 :: fdstate where
  "fdstate0 = \<lparr>fd_calls = [],
     fds = (\<lambda>fd. if fd \<in> {0, 1, 2, 3, 5, 7} then Some \<lparr>ofile = nat fd, cloexec = False\<rparr>
                 else None)\<rparr>"

section \<open>Properties of the identity drop\<close>

lemma syscall_Success: "syscall Success c s = (0, s\<lparr>calls := calls s @ [c]\<rparr>)"
  by (simp add: syscall_def)

lemma syscall_Failure:
  "syscall (Failure e) c s = (- 1, s\<lparr>calls := calls s @ [c], errno := e\<rparr>)"
  by (simp add: syscall_def)

text \<open>The comparison of line 261 is never true: \<open>umask\<close> returns an unsigned value.\<close>

lemma sys_umask_nonneg: "\<not> fst (sys_umask k m s) < 0"
  by (simp add: sys_umask_def)

lemma set_uid_gid_calls:
  "calls (snd (set_uid_gid k p s)) = calls s @ take (attempted k p) (identity_ops p)"
proof (cases "k_setgroups k (gids p)")
  case (Failure e)
  then show ?thesis
    by (simp add: set_uid_gid_def sys_setgroups_def syscall_Failure attempted_def
        identity_ops_def)
next
  case s1: Success
  show ?thesis
  proof (cases "k_setgid k (gid p)")
    case (Failure e)
    with s1 show ?thesis
      by (simp add: set_uid_gid_def sys_setgroups_def sys_setgid_def syscall_Failure
          syscall_Success attempted_def identity_ops_def)
  next
    case s2: Success
    show ?thesis
    proof (cases "k_setuid k (uid p)")
      case (Failure e)
      with s1 s2 show ?thesis
        by (simp add: set_uid_gid_def sys_setgroups_def sys_setgid_def sys_setuid_def
            syscall_Failure syscall_Success attempted_def identity_ops_def)
    next
      case Success
      with s1 s2 show ?thesis
        by (simp add: set_uid_gid_def sys_setgroups_def sys_setgid_def sys_setuid_def
            sys_umask_def syscall_Success attempted_def identity_ops_def)
    qed
  qed
qed

lemma set_uid_gid_result:
  "fst (set_uid_gid k p s) = Inr () \<longleftrightarrow> attempted k p = 4"
  "fst (set_uid_gid k p s) \<noteq> Inr () \<longleftrightarrow> is_system_error (fst (set_uid_gid k p s))"
  by (cases "k_setgroups k (gids p)"; cases "k_setgid k (gid p)";
      cases "k_setuid k (uid p)";
      simp add: set_uid_gid_def sys_setgroups_def sys_setgid_def sys_setuid_def
        sys_umask_def syscall_Success syscall_Failure attempted_def is_system_error_def)+

text \<open>
  C1. Whatever the kernel answers, the calls that \<open>set_uid_gid\<close> makes are an initial
  segment of setgroups, setgid, setuid, umask, in this order: all four when no call
  fails, and otherwise the calls up to and including the first one that fails, none
  after it. The sequence returns normally exactly when all four were made, and every other
  outcome is a system error.
\<close>

theorem set_uid_gid_order:
  "calls (snd (set_uid_gid k p s)) = calls s @ take (attempted k p) (identity_ops p)
   \<and> identity_ops p = [Setgroups (gids p), Setgid (gid p), Setuid (uid p), Umask (umask p)]
   \<and> (fst (set_uid_gid k p s) = Inr () \<longleftrightarrow> attempted k p = 4)
   \<and> (fst (set_uid_gid k p s) \<noteq> Inr () \<longleftrightarrow> is_system_error (fst (set_uid_gid k p s)))
   \<and> (attempted k p = 1 \<longleftrightarrow> k_setgroups k (gids p) \<noteq> Success)
   \<and> (attempted k p = 2 \<longleftrightarrow>
        k_setgroups k (gids p) = Success \<and> k_setgid k (gid p) \<noteq> Success)
   \<and> (attempted k p = 3 \<longleftrightarrow>
        k_setgroups k (gids p) = Success \<and> k_setgid k (gid p) = Success
        \<and> k_setuid k (uid p) \<noteq> Success)"
proof -
  have "attempted k p = 1 \<longleftrightarrow> k_setgroups k (gids p) \<noteq> Success"
    by (simp add: attempted_def)
  moreover have "attempted k p = 2 \<longleftrightarrow>
      k_setgroups k (gids p) = Success \<and> k_setgid k (gid p) \<noteq> Success"
    by (simp add: attempted_def)
  moreover have "attempted k p = 3 \<longleftrightarrow>
      k_setgroups k (gids p) = Success \<and> k_setgid k (gid p) = Success
      \<and> k_setuid k (uid p) \<noteq> Success"
    by (simp add: attempted_def)
  ultimately show ?thesis
    using set_uid_gid_calls [of k p s] set_uid_gid_result [of k p s]
    by (simp add: identity_ops_def)
qed

theorem set_uid_gid_order_witness:
  "calls (snd (set_uid_gid kernel_ok proc0 kstate0))
     = [Setgroups [10, 100, 200], Setgid 10, Setuid 1001, Umask 18]
   \<and> fst (set_uid_gid kernel_ok proc0 kstate0) = Inr ()
   \<and> calls (snd (set_uid_gid kernel_setgid_fails proc0 kstate0))
     = [Setgroups [10, 100, 200], Setgid 10]
   \<and> is_system_error (fst (set_uid_gid kernel_setgid_fails proc0 kstate0))
   \<and> calls (snd (set_uid_gid kernel_setgroups_fails proc0 kstate0))
     = [Setgroups [10, 100, 200]]
   \<and> calls (snd (set_uid_gid kernel_setuid_fails proc0 kstate0))
     = [Setgroups [10, 100, 200], Setgid 10, Setuid 1001]"
proof -
  have a: "attempted kernel_ok proc0 = 4"
    by (simp add: attempted_def kernel_ok_def)
  have b: "attempted kernel_setgid_fails proc0 = 2"
    by (simp add: attempted_def kernel_setgid_fails_def kernel_ok_def)
  have c: "attempted kernel_setgroups_fails proc0 = 1"
    by (simp add: attempted_def kernel_setgroups_fails_def kernel_ok_def)
  have d: "attempted kernel_setuid_fails proc0 = 3"
    by (simp add: attempted_def kernel_setuid_fails_def kernel_ok_def)
  have ops: "identity_ops proc0 = [Setgroups [10, 100, 200], Setgid 10, Setuid 1001, Umask 18]"
    by (simp add: identity_ops_def proc0_def)
  have g: "gids proc0 = [10, 100, 200]"
    by (simp add: proc0_def)
  have e: "k_setgid kernel_setgid_fails 10 \<noteq> Success"
    by (simp add: kernel_setgid_fails_def)
  have 1: "calls (snd (set_uid_gid kernel_ok proc0 kstate0))
      = [Setgroups [10, 100, 200], Setgid 10, Setuid 1001, Umask 18]
    \<and> fst (set_uid_gid kernel_ok proc0 kstate0) = Inr ()"
    using set_uid_gid_order [of kernel_ok proc0 kstate0]
    by (simp add: a ops kstate0_def)
  have 2: "calls (snd (set_uid_gid kernel_setgid_fails proc0 kstate0))
      = [Setgroups [10, 100, 200], Setgid 10]
    \<and> is_system_error (fst (set_uid_gid kernel_setgid_fails proc0 kstate0))"
    using set_uid_gid_order [of kernel_setgid_fails proc0 kstate0]
    by (auto simp add: b ops kstate0_def)
  have 3: "calls (snd (set_uid_gid kernel_setgroups_fails proc0 kstate0))
      = [Setgroups [10, 100, 200]]"
    using set_uid_gid_order [of kernel_setgroups_fails proc0 kstate0]
    by (simp add: c ops kstate0_def)
  have 4: "calls (snd (set_uid_gid kernel_setuid_fails proc0 kstate0))
      = [Setgroups [10, 100, 200], Setgid 10, Setuid 1001]"
    using set_uid_gid_order [of kernel_setuid_fails proc0 kstate0]
    by (simp add: d ops kstate0_def)
  from 1 2 3 4 show ?thesis by simp
qed

text \<open>
  C5. When the call that sets the group id fails, the error carries the kernel's error
  code, but its message names \<open>getgid\<close>, the call that reads the group id, where the
  messages of the sibling branches name the call that failed (\<open>setgroups\<close>,
  \<open>setuid\<close>).
\<close>

theorem set_uid_gid_setgid_failure_message:
  "fst (set_uid_gid kernel_setgid_fails proc0 kstate0)
     = Inl (SystemError EPERM ''error calling getgid'')
   \<and> fst (set_uid_gid kernel_setgroups_fails proc0 kstate0)
     = Inl (SystemError EPERM ''error calling setgroups'')
   \<and> fst (set_uid_gid kernel_setuid_fails proc0 kstate0)
     = Inl (SystemError EPERM ''error calling setuid'')"
  by (simp add: set_uid_gid_def sys_setgroups_def sys_setgid_def sys_setuid_def
      syscall_Success syscall_Failure kernel_setgid_fails_def kernel_setgroups_fails_def
      kernel_setuid_fails_def kernel_ok_def proc0_def kstate0_def)

section \<open>Properties of the environment\<close>

lemma find_char_None: "find_char c s = None \<longleftrightarrow> c \<notin> set s"
  by (induction s) auto

lemma find_char_Some:
  "find_char c s = Some n \<Longrightarrow> n < length s \<and> s ! n = c \<and> take n s = takeWhile (\<lambda>x. x \<noteq> c) s"
  by (induction s arbitrary: n) (auto split: if_splits)

lemma takeWhile_notin: "c \<notin> set e \<Longrightarrow> takeWhile (\<lambda>x. x \<noteq> c) e = e"
  by (induction e) auto

lemma substr_to_find: "substr_to e (find_char c e) = takeWhile (\<lambda>x. x \<noteq> c) e"
proof (cases "find_char c e")
  case None
  then have "c \<notin> set e" by (simp add: find_char_None)
  with None show ?thesis by (simp add: substr_to_def takeWhile_notin)
next
  case (Some n)
  then show ?thesis by (simp add: substr_to_def find_char_Some)
qed

lemma env_key_eq: "substr_to e (find_char CHR ''='' e) = env_key e"
  by (simp add: substr_to_find env_key_def)

lemma find_char_append_eq:
  "c \<notin> set k \<Longrightarrow> find_char c (k @ c # v) = Some (length k)"
  by (induction k) auto

lemma getenv_scan_None: "getenv_scan es key = None \<longleftrightarrow> (\<forall>e \<in> set es. env_key e \<noteq> key)"
  by (induction es) (auto simp: Let_def env_key_eq split: option.splits)

lemma getenv_scan_keyval:
  "CHR ''='' \<notin> set key \<Longrightarrow> getenv_scan ((key @ ''='' @ val) # es) key = Some val"
  using find_char_append_eq [of "CHR ''=''" key val]
  by (simp add: Let_def substr_to_def)

lemma getenv_scan_skip:
  "env_key e \<noteq> key \<Longrightarrow> getenv_scan (e # es) key = getenv_scan es key"
  by (auto simp: Let_def env_key_eq)

lemma setenv_scan_abort:
  "setenv_scan es key kv = Inl x \<longleftrightarrow>
     x = AssertionFailure \<and>
     (\<exists>i < length es. CHR ''='' \<notin> set (es ! i) \<and> (\<forall>j < i. env_key (es ! j) \<noteq> key))"
proof (induction es)
  case Nil
  then show ?case by simp
next
  case (Cons e es)
  show ?case
  proof (cases "CHR ''='' \<in> set e")
    case False
    then have "setenv_scan (e # es) key kv = Inl AssertionFailure"
      by (simp add: find_char_None)
    moreover have "\<exists>i < length (e # es). CHR ''='' \<notin> set ((e # es) ! i)
        \<and> (\<forall>j < i. env_key ((e # es) ! j) \<noteq> key)"
      using False by (intro exI [of _ 0]) simp
    ultimately show ?thesis by auto
  next
    case True
    then have pos: "find_char CHR ''='' e \<noteq> None" by (simp add: find_char_None)
    show ?thesis
    proof (cases "env_key e = key")
      case k: True
      then have "setenv_scan (e # es) key kv = Inr (kv # es)"
        using pos by (auto simp: Let_def env_key_eq)
      moreover have "\<not> (\<exists>i < length (e # es). CHR ''='' \<notin> set ((e # es) ! i)
        \<and> (\<forall>j < i. env_key ((e # es) ! j) \<noteq> key))"
      proof
        assume "\<exists>i < length (e # es). CHR ''='' \<notin> set ((e # es) ! i)
          \<and> (\<forall>j < i. env_key ((e # es) ! j) \<noteq> key)"
        then obtain i where i: "CHR ''='' \<notin> set ((e # es) ! i)"
          "\<forall>j < i. env_key ((e # es) ! j) \<noteq> key" by blast
        from i(1) True have "i \<noteq> 0" by (cases i) auto
        with i(2) have "env_key ((e # es) ! 0) \<noteq> key" by blast
        with k show False by simp
      qed
      ultimately show ?thesis by simp
    next
      case k: False
      then have step: "setenv_scan (e # es) key kv =
          (case setenv_scan es key kv of Inl x \<Rightarrow> Inl x | Inr es' \<Rightarrow> Inr (e # es'))"
        using pos by (auto simp: Let_def env_key_eq)
      have ex: "(\<exists>i < length (e # es). CHR ''='' \<notin> set ((e # es) ! i)
          \<and> (\<forall>j < i. env_key ((e # es) ! j) \<noteq> key))
        \<longleftrightarrow> (\<exists>i < length es. CHR ''='' \<notin> set (es ! i) \<and> (\<forall>j < i. env_key (es ! j) \<noteq> key))"
        (is "?L \<longleftrightarrow> ?R")
      proof
        assume ?L
        then obtain i where i: "i < length (e # es)" "CHR ''='' \<notin> set ((e # es) ! i)"
          "\<forall>j < i. env_key ((e # es) ! j) \<noteq> key" by blast
        from i(2) True obtain i' where i': "i = Suc i'" by (cases i) auto
        have "\<forall>j < i'. env_key (es ! j) \<noteq> key"
        proof (intro allI impI)
          fix j assume "j < i'"
          then have "Suc j < i" using i' by simp
          with i(3) have "env_key ((e # es) ! Suc j) \<noteq> key" by blast
          then show "env_key (es ! j) \<noteq> key" by simp
        qed
        with i i' show ?R by (intro exI [of _ i']) simp
      next
        assume ?R
        then obtain i where i: "i < length es" "CHR ''='' \<notin> set (es ! i)"
          "\<forall>j < i. env_key (es ! j) \<noteq> key" by blast
        have "\<forall>j < Suc i. env_key ((e # es) ! j) \<noteq> key"
        proof (intro allI impI)
          fix j assume "j < Suc i"
          then show "env_key ((e # es) ! j) \<noteq> key"
            using k i(3) by (cases j) auto
        qed
        with i show ?L by (intro exI [of _ "Suc i"]) simp
      qed
      show ?thesis
        unfolding step ex using Cons.IH by (auto split: sum.splits)
    qed
  qed
qed

lemma setenv_scan_total:
  "\<forall>e \<in> set es. CHR ''='' \<in> set e \<Longrightarrow> \<exists>es'. setenv_scan es key kv = Inr es'"
  by (induction es) (auto simp: Let_def find_char_None split: sum.splits)

lemma setenv_scan_append:
  "setenv_scan es key kv = Inr es' \<Longrightarrow> \<forall>e \<in> set es. env_key e \<noteq> key \<Longrightarrow> es' = es @ [kv]"
  by (induction es arbitrary: es') (auto simp: Let_def env_key_eq split: sum.splits if_splits)

lemma setenv_scan_overwrite:
  "setenv_scan es key kv = Inr es' \<Longrightarrow> \<exists>e \<in> set es. env_key e = key \<Longrightarrow>
   \<exists>i < length es. es' = es[i := kv] \<and> env_key (es ! i) = key \<and> (\<forall>j < i. env_key (es ! j) \<noteq> key)"
proof (induction es arbitrary: es')
  case Nil
  then show ?case by simp
next
  case (Cons e es)
  show ?case
  proof (cases "env_key e = key")
    case True
    with Cons.prems(1) have "es' = kv # es"
      by (auto simp: Let_def env_key_eq split: if_splits)
    with True show ?thesis by (intro exI [of _ 0]) simp
  next
    case False
    with Cons.prems(1) obtain es'' where es'': "setenv_scan es key kv = Inr es''" "es' = e # es''"
      by (auto simp: Let_def env_key_eq split: if_splits sum.splits)
    from False Cons.prems(2) have "\<exists>e \<in> set es. env_key e = key" by auto
    from Cons.IH [OF es''(1) this] obtain i where i: "i < length es" "es'' = es[i := kv]"
      "env_key (es ! i) = key" "\<forall>j < i. env_key (es ! j) \<noteq> key" by blast
    have "\<forall>j < Suc i. env_key ((e # es) ! j) \<noteq> key"
    proof (intro allI impI)
      fix j assume "j < Suc i"
      then show "env_key ((e # es) ! j) \<noteq> key"
        using False i(4) by (cases j) auto
    qed
    with i es''(2) show ?thesis by (intro exI [of _ "Suc i"]) simp
  qed
qed

lemma setenv_scan_roundtrip:
  "setenv_scan es key (key @ ''='' @ val) = Inr es' \<Longrightarrow> CHR ''='' \<notin> set key \<Longrightarrow>
   getenv_scan es' key = Some val"
proof (induction es arbitrary: es')
  case Nil
  then show ?case using getenv_scan_keyval [of key val "[]"] by simp
next
  case (Cons e es)
  show ?case
  proof (cases "env_key e = key")
    case True
    with Cons.prems(1) have "es' = (key @ ''='' @ val) # es"
      by (auto simp: Let_def env_key_eq split: if_splits)
    then show ?thesis using getenv_scan_keyval [OF Cons.prems(2)] by simp
  next
    case False
    with Cons.prems(1) obtain es'' where
      es'': "setenv_scan es key (key @ ''='' @ val) = Inr es''" "es' = e # es''"
      by (auto simp: Let_def env_key_eq split: if_splits sum.splits)
    from Cons.IH [OF es''(1) Cons.prems(2)] have "getenv_scan es'' key = Some val" .
    with es''(2) show ?thesis by (simp only: getenv_scan_skip [OF False])
  qed
qed


lemma setenv_Inr:
  "setenv p key val = Inr p' \<longleftrightarrow>
     (\<exists>es. setenv_scan (env p) key (key @ ''='' @ val) = Inr es \<and> p' = p\<lparr>env := es\<rparr>)"
  by (auto simp: setenv_def Let_def split: sum.splits)

lemma setenv_Inl:
  "setenv p key val = Inl x \<longleftrightarrow> setenv_scan (env p) key (key @ ''='' @ val) = Inl x"
  by (auto simp: setenv_def Let_def split: sum.splits)

text \<open>
  C7, as amended. \<open>setenv\<close> returns whenever every entry of the environment has an
  \<open>=\<close>. Whenever it returns: only \<open>env\<close> has changed; if the key has no \<open>=\<close>,
  \<open>getenv\<close> of the key then returns the value; if some entry has the key, the first
  such entry is overwritten in place with \<open>key=value\<close> and the length is unchanged;
  if no entry has the key, \<open>key=value\<close> is appended as the one new, last entry.
\<close>

theorem setenv_getenv_roundtrip:
  "((\<forall>e \<in> set (env p). CHR ''='' \<in> set e) \<longrightarrow> (\<exists>p'. setenv p key val = Inr p'))
   \<and> (setenv p key val = Inr p' \<longrightarrow>
        p' = p\<lparr>env := env p'\<rparr>
      \<and> (CHR ''='' \<notin> set key \<longrightarrow> getenv p' key = Some val)
      \<and> ((\<exists>e \<in> set (env p). env_key e = key) \<longrightarrow>
            length (env p') = length (env p)
          \<and> (\<exists>i < length (env p). env p' = (env p)[i := key @ ''='' @ val]
                \<and> env_key (env p ! i) = key \<and> (\<forall>j < i. env_key (env p ! j) \<noteq> key)))
      \<and> ((\<forall>e \<in> set (env p). env_key e \<noteq> key) \<longrightarrow> env p' = env p @ [key @ ''='' @ val]))"
proof (intro conjI impI)
  assume "\<forall>e \<in> set (env p). CHR ''='' \<in> set e"
  from setenv_scan_total [OF this, of key "key @ ''='' @ val"]
  show "\<exists>p'. setenv p key val = Inr p'"
    by (auto simp: setenv_Inr)
next
  assume "setenv p key val = Inr p'"
  then show "p' = p\<lparr>env := env p'\<rparr>" by (auto simp: setenv_Inr)
next
  assume "setenv p key val = Inr p'" and "CHR ''='' \<notin> set key"
  then have "setenv_scan (env p) key (key @ ''='' @ val) = Inr (env p')" "CHR ''='' \<notin> set key"
    by (auto simp: setenv_Inr)
  from setenv_scan_roundtrip [OF this] show "getenv p' key = Some val"
    by (simp add: getenv_def)
next
  assume a: "setenv p key val = Inr p'" and b: "\<exists>e \<in> set (env p). env_key e = key"
  from a have s: "setenv_scan (env p) key (key @ ''='' @ val) = Inr (env p')"
    by (auto simp: setenv_Inr)
  from setenv_scan_overwrite [OF s b]
  show i: "\<exists>i < length (env p). env p' = (env p)[i := key @ ''='' @ val]
      \<and> env_key (env p ! i) = key \<and> (\<forall>j < i. env_key (env p ! j) \<noteq> key)" .
  then show "length (env p') = length (env p)" by auto
next
  assume a: "setenv p key val = Inr p'" and b: "\<forall>e \<in> set (env p). env_key e \<noteq> key"
  from a have s: "setenv_scan (env p) key (key @ ''='' @ val) = Inr (env p')"
    by (auto simp: setenv_Inr)
  from setenv_scan_append [OF s b] show "env p' = env p @ [key @ ''='' @ val]" .
qed

theorem setenv_getenv_roundtrip_witness:
  "setenv (procv ''sh'' [''PATH=/bin'', ''HOME='', ''TERM=xterm'']) ''HOME'' ''/''
     = Inr (procv ''sh'' [''PATH=/bin'', ''HOME=/'', ''TERM=xterm''])
   \<and> getenv (procv ''sh'' [''PATH=/bin'', ''HOME=/'', ''TERM=xterm'']) ''HOME'' = Some ''/''
   \<and> setenv (procv ''sh'' [''PATH=/bin'']) ''FOO'' ''bar''
     = Inr (procv ''sh'' [''PATH=/bin'', ''FOO=bar''])
   \<and> getenv (procv ''sh'' [''PATH=/bin'', ''FOO=bar'']) ''FOO'' = Some ''bar''"
proof -
  let ?p = "procv ''sh'' [''PATH=/bin'', ''HOME='', ''TERM=xterm'']"
  let ?p' = "procv ''sh'' [''PATH=/bin'', ''HOME=/'', ''TERM=xterm'']"
  let ?q = "procv ''sh'' [''PATH=/bin'']"
  let ?q' = "procv ''sh'' [''PATH=/bin'', ''FOO=bar'']"
  have 1: "setenv ?p ''HOME'' ''/'' = Inr ?p'"
    by (simp add: setenv_def procv_def proc0_def substr_to_def)
  have 2: "setenv ?q ''FOO'' ''bar'' = Inr ?q'"
    by (simp add: setenv_def procv_def proc0_def substr_to_def)
  have "getenv ?p' ''HOME'' = Some ''/''"
    using setenv_getenv_roundtrip [of ?p "''HOME''" "''/''" ?p'] 1 by simp
  moreover have "getenv ?q' ''FOO'' = Some ''bar''"
    using setenv_getenv_roundtrip [of ?q "''FOO''" "''bar''" ?q'] 2 by simp
  ultimately show ?thesis using 1 2 by simp
qed

text \<open>
  The round trip as stated for every environment and every key fails twice: after
  \<open>setenv("A=B", "c")\<close> on an empty environment, \<open>getenv("A=B")\<close> finds nothing,
  and on the environment \<open>["FOO"]\<close>, \<open>setenv("BAR", "x")\<close> stops at its assertion.
\<close>

theorem setenv_getenv_counterexample:
  "setenv (procv ''sh'' []) ''A=B'' ''c'' = Inr (procv ''sh'' [''A=B=c''])
   \<and> getenv (procv ''sh'' [''A=B=c'']) ''A=B'' = None
   \<and> setenv (procv ''sh'' [''FOO'']) ''BAR'' ''x'' = Inl AssertionFailure"
  by (simp add: setenv_def getenv_def procv_def proc0_def substr_to_def)

section \<open>Properties of construction\<close>

lemma bind_err_Inr: "bind_err m f = Inr y \<longleftrightarrow> (\<exists>x. m = Inr x \<and> f x = Inr y)"
  by (cases m) (simp_all add: bind_err_def)

lemma bind_err_Inl: "bind_err m f = Inl e \<longleftrightarrow> m = Inl e \<or> (\<exists>x. m = Inr x \<and> f x = Inl e)"
  by (cases m) (simp_all add: bind_err_def)

lemma get_strings_Inr: "get_strings m xs = Inr ss \<Longrightarrow> xs = map JString ss"
proof (induction xs arbitrary: ss)
  case Nil
  then show ?case by simp
next
  case (Cons a as)
  then show ?case
    by (cases a) (auto simp: is_string_def get_string_def malformed_config_def bind_err_Inr)
qed

lemma get_strings_map: "get_strings m (map JString ss) = Inr ss"
  by (induction ss) (simp_all add: is_string_def get_string_def bind_err_def)

lemma get_strings_Inl: "get_strings m xs = Inl e \<Longrightarrow> e = MalformedConfig m"
  by (induction xs) (auto simp: malformed_config_def bind_err_Inl split: if_splits)

lemma get_gids_Inr: "get_gids xs = Inr ws \<Longrightarrow> ws = map get_u32 xs"
  by (induction xs arbitrary: ws) (auto simp: malformed_config_def bind_err_Inr split: if_splits)

lemma get_gids_Inl:
  "get_gids xs = Inl e \<Longrightarrow>
   e = MalformedConfig ''process.user.additionalGids must be an array of numbers''"
  by (induction xs) (auto simp: malformed_config_def bind_err_Inl split: if_splits)

lemma process_fields_Inr:
  assumes "process_fields d j cs dt pf = Inr p"
  shows "ctor_cwd j = Inr (cwd p)" "ctor_args j = Inr (args p)"
    "ctor_user d j = Inr (uid p, gid p, umask p, gids p)" "ctor_env j = Inr (env p)"
    "ctor_terminal d j = Inr (terminal p)" "console_socket p = cs" "detach p = dt"
    "preserve_fds p = pf"
  using assms by (auto simp: process_fields_def bind_err_Inr)

lemma process_ctor_fields:
  "process_fields d j cs dt pf = Inr p \<Longrightarrow>
   process_ctor fs d j cs dt pf = bind_err (ctor_console fs p) (\<lambda>u. Inr p)"
  by (simp add: process_ctor_def bind_err_def)

lemma process_ctor_Inr:
  "process_ctor fs d j cs dt pf = Inr p \<Longrightarrow>
   process_fields d j cs dt pf = Inr p \<and> ctor_console fs p = Inr ()"
  by (auto simp: process_ctor_def bind_err_Inr)

lemma json_at_contains: "json_at j key \<noteq> JNull \<Longrightarrow> contains j key"
  by (cases j) (auto simp: json_at_def contains_def split: option.splits)

lemma ctor_terminal_Inr:
  "ctor_terminal d j = Inr t \<Longrightarrow>
     (contains j ''terminal'' \<longrightarrow> json_at j ''terminal'' = JBool t)
   \<and> (\<not> contains j ''terminal'' \<longrightarrow> t = init_terminal d)"
  by (cases "json_at j ''terminal''")
     (auto simp: ctor_terminal_def is_boolean_def get_bool_def malformed_config_def
           split: if_splits)

lemma ctor_user_umask: "ctor_user d j = Inr (u, g, m, gs) \<Longrightarrow> m = init_umask d"
  by (auto simp: ctor_user_def Let_def malformed_config_def bind_err_Inr split: if_splits)

lemma ctor_user_gids:
  assumes "ctor_user d j = Inr (u, g, m, gs)" "contains j ''user''"
    "is_object (json_at j ''user'')"
  shows "g = get_u32 (json_at (json_at j ''user'') ''gid'')"
    "gs = g # (if contains (json_at j ''user'') ''additionalGids''
               then map get_u32 (elements (json_at (json_at j ''user'') ''additionalGids''))
               else [])"
proof -
  from assms(3) have nn: "\<not> is_null (json_at j ''user'')"
    by (cases "json_at j ''user''") (simp_all add: is_object_def is_null_def)
  from assms(1) show "g = get_u32 (json_at (json_at j ''user'') ''gid'')"
    using assms(2,3) nn
    by (auto simp: ctor_user_def Let_def malformed_config_def bind_err_Inr split: if_splits)
  from assms(1) show "gs = g # (if contains (json_at j ''user'') ''additionalGids''
               then map get_u32 (elements (json_at (json_at j ''user'') ''additionalGids''))
               else [])"
    using assms(2,3) nn
    by (auto simp: ctor_user_def Let_def malformed_config_def bind_err_Inr
             dest: get_gids_Inr split: if_splits)
qed

lemma ctor_console_cases:
  "terminal p \<Longrightarrow> detach p \<Longrightarrow> console_socket p = None \<Longrightarrow>
     ctor_console fs p = Inl (ConfigurationConflict
       ''--console-socket is required when detached if process.terminal is true'')"
  "terminal p \<Longrightarrow> detach p \<Longrightarrow> console_socket p = Some path \<Longrightarrow>
     fs_status fs path = Inr t \<Longrightarrow> t \<noteq> Socket \<Longrightarrow>
     ctor_console fs p = Inl (ConfigurationConflict
       ''--console-socket must be a path to a local domain socket'')"
  "terminal p \<Longrightarrow> detach p \<Longrightarrow> console_socket p = Some path \<Longrightarrow>
     fs_status fs path = Inl e \<Longrightarrow> ctor_console fs p = Inl (FilesystemError e path)"
  "\<not> terminal p \<Longrightarrow> console_socket p \<noteq> None \<Longrightarrow>
     ctor_console fs p = Inl (ConfigurationConflict
       ''--console-socket provided but process.terminal is false'')"
  by (simp_all add: ctor_console_def is_socket_def bind_err_def)

lemma ctor_console_Inr:
  "ctor_console fs p = Inr u \<Longrightarrow>
     (terminal p \<and> detach p \<longrightarrow>
        (\<exists>path. console_socket p = Some path \<and> fs_status fs path = Inr Socket))
   \<and> (\<not> terminal p \<longrightarrow> console_socket p = None)"
  by (auto simp: ctor_console_def is_socket_def bind_err_Inr split: if_splits option.splits sum.splits)

text \<open>
  C3. Let the checks of the document itself pass (\<open>process_fields\<close> returns \<open>p\<close>).
  With \<open>terminal\<close> true and a detached launch, construction fails with a
  ConfigurationConflict when no console socket is given, and when the path given has a
  status that is not that of a socket (a missing file included); when the status of the path
  cannot be read, construction fails with the error of the file system. With
  \<open>terminal\<close> false, construction fails with a ConfigurationConflict when a console
  socket is given. \<open>terminal\<close> is the value of the document, or the initial value when
  the document has none. Whatever the rest of the document, construction never succeeds
  in these cases, and a ConfigurationConflict is never a MalformedConfig.
\<close>

theorem ctor_console_socket_rule:
  "(process_fields d j cs dt pf = Inr p \<longrightarrow>
      (terminal p \<and> dt \<and> cs = None \<longrightarrow>
         process_ctor fs d j cs dt pf = Inl (ConfigurationConflict
           ''--console-socket is required when detached if process.terminal is true''))
    \<and> (\<forall>path t. terminal p \<and> dt \<and> cs = Some path \<and> fs_status fs path = Inr t \<and> t \<noteq> Socket \<longrightarrow>
         process_ctor fs d j cs dt pf = Inl (ConfigurationConflict
           ''--console-socket must be a path to a local domain socket''))
    \<and> (\<forall>path e. terminal p \<and> dt \<and> cs = Some path \<and> fs_status fs path = Inl e \<longrightarrow>
         process_ctor fs d j cs dt pf = Inl (FilesystemError e path))
    \<and> (\<not> terminal p \<and> cs \<noteq> None \<longrightarrow>
         process_ctor fs d j cs dt pf = Inl (ConfigurationConflict
           ''--console-socket provided but process.terminal is false''))
    \<and> (contains j ''terminal'' \<longrightarrow> json_at j ''terminal'' = JBool (terminal p))
    \<and> (\<not> contains j ''terminal'' \<longrightarrow> terminal p = init_terminal d))
   \<and> (json_at j ''terminal'' = JBool True \<and> dt
        \<and> (cs = None \<or> (\<exists>path. cs = Some path \<and> fs_status fs path \<noteq> Inr Socket)) \<longrightarrow>
        (\<exists>e. process_ctor fs d j cs dt pf = Inl e))
   \<and> (json_at j ''terminal'' = JBool False \<and> cs \<noteq> None \<longrightarrow>
        (\<exists>e. process_ctor fs d j cs dt pf = Inl e))
   \<and> (\<forall>m m'. ConfigurationConflict m \<noteq> MalformedConfig m')"
proof (intro conjI impI allI)
  assume f: "process_fields d j cs dt pf = Inr p"
  note pf = process_fields_Inr [OF f] and eq = process_ctor_fields [OF f, of fs]
  show "process_ctor fs d j cs dt pf = Inl (ConfigurationConflict
      ''--console-socket is required when detached if process.terminal is true'')"
    if "terminal p \<and> dt \<and> cs = None"
  proof -
    from that pf(6,7) have "ctor_console fs p = Inl (ConfigurationConflict
        ''--console-socket is required when detached if process.terminal is true'')"
      by (intro ctor_console_cases(1)) auto
    then show ?thesis by (simp add: eq bind_err_def)
  qed
  show "process_ctor fs d j cs dt pf = Inl (ConfigurationConflict
      ''--console-socket must be a path to a local domain socket'')"
    if "terminal p \<and> dt \<and> cs = Some path \<and> fs_status fs path = Inr t \<and> t \<noteq> Socket"
    for path t
  proof -
    from that pf(6,7) have "ctor_console fs p = Inl (ConfigurationConflict
        ''--console-socket must be a path to a local domain socket'')"
      by (intro ctor_console_cases(2) [of p path fs t]) auto
    then show ?thesis by (simp add: eq bind_err_def)
  qed
  show "process_ctor fs d j cs dt pf = Inl (FilesystemError e path)"
    if "terminal p \<and> dt \<and> cs = Some path \<and> fs_status fs path = Inl e" for path e
  proof -
    from that pf(6,7) have "ctor_console fs p = Inl (FilesystemError e path)"
      by (intro ctor_console_cases(3)) auto
    then show ?thesis by (simp add: eq bind_err_def)
  qed
  show "process_ctor fs d j cs dt pf = Inl (ConfigurationConflict
      ''--console-socket provided but process.terminal is false'')"
    if "\<not> terminal p \<and> cs \<noteq> None"
  proof -
    from that pf(6) have "ctor_console fs p = Inl (ConfigurationConflict
        ''--console-socket provided but process.terminal is false'')"
      by (intro ctor_console_cases(4)) auto
    then show ?thesis by (simp add: eq bind_err_def)
  qed
  show "json_at j ''terminal'' = JBool (terminal p)" if "contains j ''terminal''"
    using that ctor_terminal_Inr [OF pf(5)] by simp
  show "terminal p = init_terminal d" if "\<not> contains j ''terminal''"
    using that ctor_terminal_Inr [OF pf(5)] by simp
next
  assume a: "json_at j ''terminal'' = JBool True \<and> dt
    \<and> (cs = None \<or> (\<exists>path. cs = Some path \<and> fs_status fs path \<noteq> Inr Socket))"
  show "\<exists>e. process_ctor fs d j cs dt pf = Inl e"
  proof (cases "process_ctor fs d j cs dt pf")
    case (Inl e)
    then show ?thesis by blast
  next
    case (Inr q)
    note r = process_ctor_Inr [OF Inr]
    note pf = process_fields_Inr [OF r [THEN conjunct1]]
    from a have "contains j ''terminal''" by (intro json_at_contains) simp
    with ctor_terminal_Inr [OF pf(5)] a have "terminal q" by simp
    with ctor_console_Inr [OF r [THEN conjunct2]] pf(6,7) a show ?thesis by auto
  qed
next
  assume a: "json_at j ''terminal'' = JBool False \<and> cs \<noteq> None"
  show "\<exists>e. process_ctor fs d j cs dt pf = Inl e"
  proof (cases "process_ctor fs d j cs dt pf")
    case (Inl e)
    then show ?thesis by blast
  next
    case (Inr q)
    note r = process_ctor_Inr [OF Inr]
    note pf = process_fields_Inr [OF r [THEN conjunct1]]
    from a have "contains j ''terminal''" by (intro json_at_contains) simp
    with ctor_terminal_Inr [OF pf(5)] a have "\<not> terminal q" by simp
    with ctor_console_Inr [OF r [THEN conjunct2]] pf(6) a show ?thesis by auto
  qed
next
  show "ConfigurationConflict m \<noteq> MalformedConfig m'" for m m' by simp
qed

lemmas json_defs = is_null_def is_object_def is_array_def is_string_def is_boolean_def
  is_number_def contains_def json_at_def elements_def get_string_def get_bool_def get_u32_def

lemmas ctor_defs = process_fields_def ctor_cwd_def ctor_args_def ctor_user_def ctor_env_def
  ctor_terminal_def bind_err_def malformed_config_def

lemma fields_config_tty:
  "process_fields init0 config_tty cs dt 0 =
     Inr \<lparr>console_socket = cs, detach = dt, preserve_fds = 0, cwd = ''/tmp'',
          args = [''true''], env = [], uid = 0, gid = 0, umask = 63, gids = [0],
          terminal = True\<rparr>"
  by (simp add: ctor_defs json_defs config_tty_def init0_def)

lemma fields_config1:
  "process_fields init0 config1 cs dt 0 =
     Inr \<lparr>console_socket = cs, detach = dt, preserve_fds = 0, cwd = ''/tmp'',
          args = [''true''], env = [''PATH=/nonexistent:/bin'', ''FOO''], uid = 1001,
          gid = 10, umask = 63, gids = [10, 100, 200], terminal = False\<rparr>"
  by (simp add: ctor_defs json_defs config1_def config_user_def init0_def)

theorem ctor_console_socket_rule_witness:
  "process_ctor fs0 init0 config_tty None True 0 = Inl (ConfigurationConflict
     ''--console-socket is required when detached if process.terminal is true'')
   \<and> process_ctor fs0 init0 config_tty (Some ''/bin'') True 0 = Inl (ConfigurationConflict
     ''--console-socket must be a path to a local domain socket'')
   \<and> process_ctor fs0 init0 config_tty (Some ''/secret/x.sock'') True 0
     = Inl (FilesystemError EACCES ''/secret/x.sock'')
   \<and> process_ctor fs0 init0 config1 (Some ''/tmp/x.sock'') False 0 = Inl (ConfigurationConflict
     ''--console-socket provided but process.terminal is false'')"
proof -
  have s1: "fs_status fs0 ''/bin'' = Inr Directory"
    and s2: "fs_status fs0 ''/secret/x.sock'' = Inl EACCES"
    by (simp_all add: fs0_def)
  have 1: "process_ctor fs0 init0 config_tty None True 0 = Inl (ConfigurationConflict
     ''--console-socket is required when detached if process.terminal is true'')"
    using ctor_console_socket_rule [of init0 config_tty None True 0 _ fs0]
      fields_config_tty [of None True] by simp
  have 2: "process_ctor fs0 init0 config_tty (Some ''/bin'') True 0 = Inl (ConfigurationConflict
     ''--console-socket must be a path to a local domain socket'')"
    using ctor_console_socket_rule [of init0 config_tty "Some ''/bin''" True 0 _ fs0]
      fields_config_tty [of "Some ''/bin''" True] s1 by simp
  have 3: "process_ctor fs0 init0 config_tty (Some ''/secret/x.sock'') True 0
     = Inl (FilesystemError EACCES ''/secret/x.sock'')"
    using ctor_console_socket_rule [of init0 config_tty "Some ''/secret/x.sock''" True 0 _ fs0]
      fields_config_tty [of "Some ''/secret/x.sock''" True] s2 by simp
  have 4: "process_ctor fs0 init0 config1 (Some ''/tmp/x.sock'') False 0
     = Inl (ConfigurationConflict ''--console-socket provided but process.terminal is false'')"
    using ctor_console_socket_rule [of init0 config1 "Some ''/tmp/x.sock''" False 0 _ fs0]
      fields_config1 [of "Some ''/tmp/x.sock''" False] by simp
  from 1 2 3 4 show ?thesis by simp
qed

text \<open>
  C6. When construction succeeds on a document whose \<open>user\<close> is an object, the group id
  is the document's \<open>gid\<close>, and the supplementary groups are the group id followed by
  the entries of \<open>additionalGids\<close> in their order, or the group id alone when the
  document has no \<open>additionalGids\<close>.
\<close>

theorem ctor_supplementary_gids:
  assumes "process_ctor fs d j cs dt pf = Inr p" and "contains j ''user''"
    and "is_object (json_at j ''user'')"
  shows "gid p = get_u32 (json_at (json_at j ''user'') ''gid'')
     \<and> gids p = gid p # (if contains (json_at j ''user'') ''additionalGids''
                        then map get_u32 (elements (json_at (json_at j ''user'') ''additionalGids''))
                        else [])
     \<and> hd (gids p) = gid p"
proof -
  note pf = process_fields_Inr [OF process_ctor_Inr [OF assms(1), THEN conjunct1]]
  from ctor_user_gids [OF pf(3) assms(2,3)] show ?thesis by simp
qed

lemma ctor_config1:
  "process_ctor fs0 init0 config1 None False 0 =
     Inr \<lparr>console_socket = None, detach = False, preserve_fds = 0, cwd = ''/tmp'',
          args = [''true''], env = [''PATH=/nonexistent:/bin'', ''FOO''], uid = 1001,
          gid = 10, umask = 63, gids = [10, 100, 200], terminal = False\<rparr>"
  by (simp add: process_ctor_def fields_config1 bind_err_def ctor_console_def)

theorem ctor_supplementary_gids_witness:
  "(\<exists>p. process_ctor fs0 init0 config1 None False 0 = Inr p \<and> gid p = 10
        \<and> gids p = [10, 100, 200])
   \<and> json_at (json_at config1 ''user'') ''gid'' = JInt 10
   \<and> json_at (json_at config1 ''user'') ''additionalGids'' = JArray [JInt 100, JInt 200]"
proof -
  have u: "json_at config1 ''user'' = JObject config_user"
    by (simp add: config1_def json_at_def)
  have c: "contains config1 ''user''" by (simp add: config1_def contains_def)
  have o: "is_object (json_at config1 ''user'')" by (simp add: u is_object_def)
  have g: "json_at (JObject config_user) ''gid'' = JInt 10"
    "json_at (JObject config_user) ''additionalGids'' = JArray [JInt 100, JInt 200]"
    "contains (JObject config_user) ''additionalGids''"
    by (simp_all add: config_user_def json_at_def contains_def)
  from ctor_supplementary_gids [OF ctor_config1 c o] u g
  show ?thesis by (simp add: ctor_config1 get_u32_def elements_def)
qed

lemma ctor_cwd_Inl:
  "ctor_cwd j = Inl e \<Longrightarrow>
   e \<in> {MalformedConfig ''process must be an object'', MalformedConfig ''no process.cwd'',
        MalformedConfig ''process.cwd must be a string''}"
  by (auto simp: ctor_cwd_def Let_def malformed_config_def split: if_splits)

lemma ctor_args_Inl:
  "ctor_args j = Inl e \<Longrightarrow>
   e \<in> {MalformedConfig ''no process.args'', MalformedConfig ''process.args must be an array'',
        MalformedConfig ''process.args must have at least one element'',
        MalformedConfig ''process.args must be an array of strings''}"
  by (auto simp: ctor_args_def Let_def malformed_config_def split: if_splits
           dest: get_strings_Inl)

lemma ctor_env_Inl:
  "ctor_env j = Inl e \<Longrightarrow>
   e \<in> {MalformedConfig ''process.env must be an array'',
        MalformedConfig ''process.env must be an array of strings''}"
  by (auto simp: ctor_env_def Let_def malformed_config_def split: if_splits
           dest: get_strings_Inl)

lemma ctor_terminal_Inl:
  "ctor_terminal d j = Inl e \<Longrightarrow> e = MalformedConfig ''process.terminal must be a boolean''"
  by (auto simp: ctor_terminal_def malformed_config_def split: if_splits)

lemma ctor_console_Inl:
  "ctor_console fs p = Inl e \<Longrightarrow> (\<forall>m. e \<noteq> MalformedConfig m)"
  by (auto simp: ctor_console_def is_socket_def bind_err_Inl split: if_splits option.splits sum.splits)

lemma ctor_user_Inl_umask:
  "ctor_user d j = Inl (MalformedConfig ''process.user.umask must be a number'') \<Longrightarrow>
   contains (json_at j ''user'') ''umask'' \<and> \<not> is_number (json_at (json_at j ''user'') ''umask'')"
  by (auto simp: ctor_user_def Let_def malformed_config_def bind_err_Inl split: if_splits
           dest: get_gids_Inl)

lemma process_fields_Inl:
  "process_fields d j cs dt pf = Inl e \<Longrightarrow>
   ctor_cwd j = Inl e \<or> ctor_args j = Inl e \<or> ctor_user d j = Inl e \<or> ctor_env j = Inl e
   \<or> ctor_terminal d j = Inl e"
  by (auto simp: process_fields_def bind_err_Inl)

lemma process_ctor_Inl:
  "process_ctor fs d j cs dt pf = Inl e \<Longrightarrow>
   process_fields d j cs dt pf = Inl e \<or> (\<exists>p. ctor_console fs p = Inl e)"
  by (auto simp: process_ctor_def bind_err_Inl)

lemma process_ctor_not_umask_error:
  assumes "contains (json_at j ''user'') ''umask''"
    and "is_number (json_at (json_at j ''user'') ''umask'')"
  shows "process_ctor fs d j cs dt pf \<noteq> Inl (MalformedConfig ''process.user.umask must be a number'')"
proof
  let ?e = "MalformedConfig ''process.user.umask must be a number''"
  assume "process_ctor fs d j cs dt pf = Inl ?e"
  from process_ctor_Inl [OF this] show False
  proof
    assume "process_fields d j cs dt pf = Inl ?e"
    from process_fields_Inl [OF this]
    consider "ctor_cwd j = Inl ?e" | "ctor_args j = Inl ?e" | "ctor_user d j = Inl ?e"
      | "ctor_env j = Inl ?e" | "ctor_terminal d j = Inl ?e" by blast
    then show False
    proof cases
      case 1 from ctor_cwd_Inl [OF this] show False by simp
    next
      case 2 from ctor_args_Inl [OF this] show False by simp
    next
      case 3 from ctor_user_Inl_umask [OF this] assms show False by simp
    next
      case 4 from ctor_env_Inl [OF this] show False by simp
    next
      case 5 from ctor_terminal_Inl [OF this] show False by simp
    qed
  next
    assume "\<exists>p. ctor_console fs p = Inl ?e"
    then show False using ctor_console_Inl by blast
  qed
qed

lemma contains_is_object: "contains j k \<Longrightarrow> is_object j"
  by (cases j) (simp_all add: contains_def is_object_def)

lemma is_object_not_null: "is_object u \<Longrightarrow> \<not> is_null u"
  by (cases u) (simp_all add: is_object_def is_null_def)

lemma ctor_user_numeric_umask:
  assumes "contains j ''user''" and "is_object (json_at j ''user'')"
    and "is_number (json_at (json_at j ''user'') ''uid'')"
    and "is_number (json_at (json_at j ''user'') ''gid'')"
    and "numeric_or_absent (json_at j ''user'') ''umask''"
  shows "ctor_user d j =
     (if contains (json_at j ''user'') ''additionalGids'' then
        if \<not> is_array (json_at (json_at j ''user'') ''additionalGids'') then
          malformed_config ''process.user.additionalGids must be an array''
        else bind_err (get_gids (elements (json_at (json_at j ''user'') ''additionalGids'')))
               (\<lambda>ws. Inr (get_u32 (json_at (json_at j ''user'') ''uid''),
                           get_u32 (json_at (json_at j ''user'') ''gid''), init_umask d,
                           [get_u32 (json_at (json_at j ''user'') ''gid'')] @ ws))
      else Inr (get_u32 (json_at (json_at j ''user'') ''uid''),
                get_u32 (json_at (json_at j ''user'') ''gid''), init_umask d,
                [get_u32 (json_at (json_at j ''user'') ''gid'')]))"
  using assms is_object_not_null [OF assms(2)]
  by (auto simp: ctor_user_def Let_def numeric_or_absent_def)

lemma ctor_user_independent:
  assumes "differ_in_umask_only j j'"
    and "numeric_or_absent (json_at j ''user'') ''umask''"
    and "numeric_or_absent (json_at j' ''user'') ''umask''"
  shows "ctor_user d j = ctor_user d j'"
proof (cases "is_number (json_at (json_at j ''user'') ''uid'')
    \<and> is_number (json_at (json_at j ''user'') ''gid'')")
  case True
  with assms(1) have n': "is_number (json_at (json_at j' ''user'') ''uid'')"
    "is_number (json_at (json_at j' ''user'') ''gid'')"
    by (simp_all add: differ_in_umask_only_def agree_on_def)
  from assms(1) have c: "contains j ''user''" "is_object (json_at j ''user'')"
    "contains j' ''user''" "is_object (json_at j' ''user'')"
    and eq: "json_at (json_at j ''user'') ''uid'' = json_at (json_at j' ''user'') ''uid''"
    "json_at (json_at j ''user'') ''gid'' = json_at (json_at j' ''user'') ''gid''"
    "json_at (json_at j ''user'') ''additionalGids''
      = json_at (json_at j' ''user'') ''additionalGids''"
    "contains (json_at j ''user'') ''additionalGids''
      = contains (json_at j' ''user'') ''additionalGids''"
    by (simp_all add: differ_in_umask_only_def agree_on_def)
  show ?thesis
    unfolding ctor_user_numeric_umask [OF c(1,2) True [THEN conjunct1] True [THEN conjunct2] assms(2)]
      ctor_user_numeric_umask [OF c(3,4) n' assms(3)]
    by (simp only: eq)
next
  case False
  from assms(1) have c: "contains j ''user''" "is_object (json_at j ''user'')"
    "contains j' ''user''" "is_object (json_at j' ''user'')"
    and eq: "json_at (json_at j ''user'') ''uid'' = json_at (json_at j' ''user'') ''uid''"
    "json_at (json_at j ''user'') ''gid'' = json_at (json_at j' ''user'') ''gid''"
    by (simp_all add: differ_in_umask_only_def agree_on_def)
  from False eq have False': "\<not> (is_number (json_at (json_at j' ''user'') ''uid'')
    \<and> is_number (json_at (json_at j' ''user'') ''gid''))" by simp
  have "ctor_user d j =
      (if \<not> is_number (json_at (json_at j ''user'') ''uid'')
       then malformed_config ''process.user.uid must be a number''
       else malformed_config ''process.user.gid must be a number'')"
    using False c(1,2) is_object_not_null [OF c(2)]
    by (auto simp: ctor_user_def Let_def)
  moreover have "ctor_user d j' =
      (if \<not> is_number (json_at (json_at j' ''user'') ''uid'')
       then malformed_config ''process.user.uid must be a number''
       else malformed_config ''process.user.gid must be a number'')"
    using False' c(3,4) is_object_not_null [OF c(4)]
    by (auto simp: ctor_user_def Let_def)
  ultimately show ?thesis by (simp only: eq)
qed

lemma process_ctor_independent:
  assumes "differ_in_umask_only j j'"
    and "numeric_or_absent (json_at j ''user'') ''umask''"
    and "numeric_or_absent (json_at j' ''user'') ''umask''"
  shows "process_ctor fs d j cs dt pf = process_ctor fs d j' cs dt pf"
proof -
  from assms(1) have o: "is_object j" "is_object j'"
    by (auto simp: differ_in_umask_only_def dest: contains_is_object)
  from assms(1) have eq:
    "contains j ''cwd'' = contains j' ''cwd''" "json_at j ''cwd'' = json_at j' ''cwd''"
    "contains j ''args'' = contains j' ''args''" "json_at j ''args'' = json_at j' ''args''"
    "contains j ''env'' = contains j' ''env''" "json_at j ''env'' = json_at j' ''env''"
    "contains j ''terminal'' = contains j' ''terminal''"
    "json_at j ''terminal'' = json_at j' ''terminal''"
    by (simp_all add: differ_in_umask_only_def agree_on_def)
  have 1: "ctor_cwd j = ctor_cwd j'" by (simp add: ctor_cwd_def o eq)
  have 2: "ctor_args j = ctor_args j'" by (simp add: ctor_args_def eq)
  have 3: "ctor_user d j = ctor_user d j'" by (rule ctor_user_independent [OF assms])
  have 4: "ctor_env j = ctor_env j'" by (simp add: ctor_env_def eq)
  have 5: "ctor_terminal d j = ctor_terminal d j'" by (simp add: ctor_terminal_def eq)
  have "process_fields d j cs dt pf = process_fields d j' cs dt pf"
    by (simp only: process_fields_def 1 2 3 4 5)
  then show ?thesis by (simp only: process_ctor_def)
qed

lemma process_ctor_numeric_umask_succeeds:
  assumes "ctor_cwd j = Inr c" and "ctor_args j = Inr a" and "ctor_env j = Inr e"
    and "ctor_terminal d j = Inr t"
    and "contains j ''user''" and "is_object (json_at j ''user'')"
    and "is_number (json_at (json_at j ''user'') ''uid'')"
    and "is_number (json_at (json_at j ''user'') ''gid'')"
    and "contains (json_at j ''user'') ''umask''"
    and "is_number (json_at (json_at j ''user'') ''umask'')"
    and "if contains (json_at j ''user'') ''additionalGids''
         then is_array (json_at (json_at j ''user'') ''additionalGids'')
              \<and> get_gids (elements (json_at (json_at j ''user'') ''additionalGids'')) = Inr ws
         else ws = []"
    and "ctor_console fs
           \<lparr>console_socket = cs, detach = dt, preserve_fds = pf, cwd = c, args = a, env = e,
            uid = get_u32 (json_at (json_at j ''user'') ''uid''),
            gid = get_u32 (json_at (json_at j ''user'') ''gid''),
            umask = init_umask d,
            gids = get_u32 (json_at (json_at j ''user'') ''gid'') # ws,
            terminal = t\<rparr> = Inr ()"
  shows "process_ctor fs d j cs dt pf =
           Inr \<lparr>console_socket = cs, detach = dt, preserve_fds = pf, cwd = c, args = a, env = e,
                uid = get_u32 (json_at (json_at j ''user'') ''uid''),
                gid = get_u32 (json_at (json_at j ''user'') ''gid''),
                umask = init_umask d,
                gids = get_u32 (json_at (json_at j ''user'') ''gid'') # ws,
                terminal = t\<rparr>"
proof -
  have n: "numeric_or_absent (json_at j ''user'') ''umask''"
    using assms(10) by (simp add: numeric_or_absent_def)
  have u: "ctor_user d j = Inr (get_u32 (json_at (json_at j ''user'') ''uid''),
      get_u32 (json_at (json_at j ''user'') ''gid''), init_umask d,
      get_u32 (json_at (json_at j ''user'') ''gid'') # ws)"
    unfolding ctor_user_numeric_umask [OF assms(5-8) n]
    using assms(11) by (auto simp: bind_err_def split: if_splits)
  show ?thesis
    by (simp add: process_ctor_def process_fields_def bind_err_def assms(1-4) u assms(12))
qed

text \<open>
  C9. A numeric \<open>user.umask\<close> never makes construction fail and is never stored.
  When the other checks of the document pass (\<open>cwd\<close>, \<open>args\<close>, \<open>env\<close>,
  \<open>terminal\<close>, numeric \<open>uid\<close> and \<open>gid\<close>, \<open>additionalGids\<close> absent or an array
  of numbers, the console socket rule), construction of a document with a numeric
  \<open>user.umask\<close> succeeds, and the process has the initial value of \<open>umask_\<close>.
  Construction gives the same result, success or error, for any two documents that differ
  only in that one has a numeric \<open>user.umask\<close> and the other a different number or
  none. Whatever the document, a process that construction returns has the initial
  \<open>umask_\<close>, construction never fails with the error of the umask check when the
  value is numeric, and the identity drop calls \<open>umask\<close> with the initial value.
\<close>

theorem ctor_umask_never_stored:
  "(process_ctor fs d j cs dt pf = Inr p \<longrightarrow>
      umask p = init_umask d
    \<and> (\<forall>k s. attempted k p = 4 \<longrightarrow>
          calls (snd (set_uid_gid k p s))
            = calls s @ [Setgroups (gids p), Setgid (gid p), Setuid (uid p),
                         Umask (init_umask d)]))
   \<and> (contains (json_at j ''user'') ''umask''
        \<and> is_number (json_at (json_at j ''user'') ''umask'') \<longrightarrow>
      process_ctor fs d j cs dt pf
        \<noteq> Inl (MalformedConfig ''process.user.umask must be a number''))
   \<and> (\<forall>c a e t ws.
        ctor_cwd j = Inr c \<and> ctor_args j = Inr a \<and> ctor_env j = Inr e
        \<and> ctor_terminal d j = Inr t
        \<and> contains j ''user'' \<and> is_object (json_at j ''user'')
        \<and> is_number (json_at (json_at j ''user'') ''uid'')
        \<and> is_number (json_at (json_at j ''user'') ''gid'')
        \<and> contains (json_at j ''user'') ''umask''
        \<and> is_number (json_at (json_at j ''user'') ''umask'')
        \<and> (if contains (json_at j ''user'') ''additionalGids''
            then is_array (json_at (json_at j ''user'') ''additionalGids'')
                 \<and> get_gids (elements (json_at (json_at j ''user'') ''additionalGids''))
                     = Inr ws
            else ws = [])
        \<and> ctor_console fs
             \<lparr>console_socket = cs, detach = dt, preserve_fds = pf, cwd = c, args = a,
              env = e, uid = get_u32 (json_at (json_at j ''user'') ''uid''),
              gid = get_u32 (json_at (json_at j ''user'') ''gid''),
              umask = init_umask d,
              gids = get_u32 (json_at (json_at j ''user'') ''gid'') # ws,
              terminal = t\<rparr> = Inr ()
        \<longrightarrow>
        process_ctor fs d j cs dt pf =
          Inr \<lparr>console_socket = cs, detach = dt, preserve_fds = pf, cwd = c, args = a,
               env = e, uid = get_u32 (json_at (json_at j ''user'') ''uid''),
               gid = get_u32 (json_at (json_at j ''user'') ''gid''),
               umask = init_umask d,
               gids = get_u32 (json_at (json_at j ''user'') ''gid'') # ws,
               terminal = t\<rparr>)
   \<and> (\<forall>j'. differ_in_umask_only j j'
          \<and> contains (json_at j ''user'') ''umask''
          \<and> is_number (json_at (json_at j ''user'') ''umask'')
          \<and> numeric_or_absent (json_at j' ''user'') ''umask'' \<longrightarrow>
        process_ctor fs d j cs dt pf = process_ctor fs d j' cs dt pf)"
proof (intro conjI impI allI)
  assume c: "process_ctor fs d j cs dt pf = Inr p"
  note pf = process_fields_Inr [OF process_ctor_Inr [OF c, THEN conjunct1]]
  from ctor_user_umask [OF pf(3)] show u: "umask p = init_umask d" .
  show "calls (snd (set_uid_gid k p s))
      = calls s @ [Setgroups (gids p), Setgid (gid p), Setuid (uid p), Umask (init_umask d)]"
    if "attempted k p = 4" for k s
    using set_uid_gid_calls [of k p s] that u by (simp add: identity_ops_def)
next
  assume "contains (json_at j ''user'') ''umask''
    \<and> is_number (json_at (json_at j ''user'') ''umask'')"
  then show "process_ctor fs d j cs dt pf
      \<noteq> Inl (MalformedConfig ''process.user.umask must be a number'')"
    using process_ctor_not_umask_error by blast
next
  fix c a e t ws
  assume h: "ctor_cwd j = Inr c \<and> ctor_args j = Inr a \<and> ctor_env j = Inr e
        \<and> ctor_terminal d j = Inr t
        \<and> contains j ''user'' \<and> is_object (json_at j ''user'')
        \<and> is_number (json_at (json_at j ''user'') ''uid'')
        \<and> is_number (json_at (json_at j ''user'') ''gid'')
        \<and> contains (json_at j ''user'') ''umask''
        \<and> is_number (json_at (json_at j ''user'') ''umask'')
        \<and> (if contains (json_at j ''user'') ''additionalGids''
            then is_array (json_at (json_at j ''user'') ''additionalGids'')
                 \<and> get_gids (elements (json_at (json_at j ''user'') ''additionalGids''))
                     = Inr ws
            else ws = [])
        \<and> ctor_console fs
             \<lparr>console_socket = cs, detach = dt, preserve_fds = pf, cwd = c, args = a,
              env = e, uid = get_u32 (json_at (json_at j ''user'') ''uid''),
              gid = get_u32 (json_at (json_at j ''user'') ''gid''),
              umask = init_umask d,
              gids = get_u32 (json_at (json_at j ''user'') ''gid'') # ws,
              terminal = t\<rparr> = Inr ()"
  show "process_ctor fs d j cs dt pf =
          Inr \<lparr>console_socket = cs, detach = dt, preserve_fds = pf, cwd = c, args = a,
               env = e, uid = get_u32 (json_at (json_at j ''user'') ''uid''),
               gid = get_u32 (json_at (json_at j ''user'') ''gid''),
               umask = init_umask d,
               gids = get_u32 (json_at (json_at j ''user'') ''gid'') # ws,
               terminal = t\<rparr>"
    by (rule process_ctor_numeric_umask_succeeds) (use h in blast)+
next
  fix j'
  assume h: "differ_in_umask_only j j'
          \<and> contains (json_at j ''user'') ''umask''
          \<and> is_number (json_at (json_at j ''user'') ''umask'')
          \<and> numeric_or_absent (json_at j' ''user'') ''umask''"
  then have "numeric_or_absent (json_at j ''user'') ''umask''"
    by (simp add: numeric_or_absent_def)
  with h show "process_ctor fs d j cs dt pf = process_ctor fs d j' cs dt pf"
    by (intro process_ctor_independent) simp_all
qed

theorem ctor_umask_never_stored_witness:
  "json_at (json_at config1 ''user'') ''umask'' = JInt 18
   \<and> init_umask init0 = 63
   \<and> (\<exists>p. process_ctor fs0 init0 config1 None False 0 = Inr p \<and> umask p = 63
        \<and> calls (snd (set_uid_gid kernel_ok p kstate0))
            = [Setgroups [10, 100, 200], Setgid 10, Setuid 1001, Umask 63])
   \<and> \<not> contains (json_at config_no_umask ''user'') ''umask''
   \<and> process_ctor fs0 init0 config1 None False 0
       = process_ctor fs0 init0 config_no_umask None False 0"
proof -
  let ?p = "\<lparr>console_socket = None, detach = False, preserve_fds = 0, cwd = ''/tmp'',
          args = [''true''], env = [''PATH=/nonexistent:/bin'', ''FOO''], uid = 1001,
          gid = 10, umask = 63, gids = [10, 100, 200], terminal = False\<rparr>"
  note th = ctor_umask_never_stored [of fs0 init0 config1 None False 0 ?p]
  have a: "attempted kernel_ok ?p = 4"
    by (simp add: attempted_def kernel_ok_def)
  have usr: "json_at config1 ''user'' = JObject config_user" "contains config1 ''user''"
    by (simp_all add: config1_def json_at_def contains_def)
  have u: "json_at (JObject config_user) ''umask'' = JInt 18"
    "json_at (JObject config_user) ''uid'' = JInt 1001"
    "json_at (JObject config_user) ''gid'' = JInt 10"
    "json_at (JObject config_user) ''additionalGids'' = JArray [JInt 100, JInt 200]"
    "contains (JObject config_user) ''umask''"
    "contains (JObject config_user) ''additionalGids''"
    by (simp_all add: config_user_def json_at_def contains_def)
  have i: "init_umask init0 = 63" by (simp add: init0_def)
  have b: "ctor_cwd config1 = Inr ''/tmp''" "ctor_args config1 = Inr [''true'']"
    "ctor_env config1 = Inr [''PATH=/nonexistent:/bin'', ''FOO'']"
    "ctor_terminal init0 config1 = Inr False"
    by (simp_all add: ctor_cwd_def ctor_args_def ctor_env_def ctor_terminal_def config1_def
        json_defs bind_err_def malformed_config_def)
  have k: "ctor_console fs0 ?p = Inr ()" by (simp add: ctor_console_def)
  have s: "process_ctor fs0 init0 config1 None False 0 = Inr ?p"
    using th [THEN conjunct2, THEN conjunct2, THEN conjunct1, rule_format,
        of "''/tmp''" "[''true'']" "[''PATH=/nonexistent:/bin'', ''FOO'']" False "[100, 200]"]
    by (simp add: b usr u i k is_object_def is_number_def is_array_def elements_def
        get_u32_def bind_err_def)
  from th s a have c: "umask ?p = init_umask init0
      \<and> calls (snd (set_uid_gid kernel_ok ?p kstate0))
          = calls kstate0 @ [Setgroups (gids ?p), Setgid (gid ?p), Setuid (uid ?p),
                             Umask (init_umask init0)]"
    by blast
  have n: "\<not> contains (json_at config_no_umask ''user'') ''umask''"
    by (simp add: config_no_umask_def json_at_def contains_def)
  have df: "differ_in_umask_only config1 config_no_umask"
    by (simp add: differ_in_umask_only_def agree_on_def config1_def config_user_def
        config_no_umask_def json_at_def contains_def is_object_def)
  have e: "process_ctor fs0 init0 config1 None False 0
       = process_ctor fs0 init0 config_no_umask None False 0"
    using th [THEN conjunct2, THEN conjunct2, THEN conjunct2, rule_format, of config_no_umask]
      df n by (simp add: usr u is_number_def numeric_or_absent_def)
  from s c n e usr u i show ?thesis by (simp add: kstate0_def)
qed

lemma ctor_config_env:
  "process_ctor fs d (config_env es) None False pf =
     Inr \<lparr>console_socket = None, detach = False, preserve_fds = pf, cwd = ''/'',
          args = [''sh''], env = es, uid = 0, gid = 0, umask = init_umask d, gids = [0],
          terminal = init_terminal d\<rparr>"
proof -
  have "ctor_env (config_env es) = Inr es"
    by (simp add: ctor_env_def config_env_def json_defs get_strings_map)
  moreover have "ctor_cwd (config_env es) = Inr ''/''"
    by (simp add: ctor_cwd_def config_env_def json_defs)
  moreover have "ctor_args (config_env es) = Inr [''sh'']"
    by (simp add: ctor_args_def config_env_def json_defs bind_err_def)
  moreover have "ctor_user d (config_env es) = Inr (0, 0, init_umask d, [0])"
    by (simp add: ctor_user_def config_env_def json_defs)
  moreover have "ctor_terminal d (config_env es) = Inr (init_terminal d)"
    by (simp add: ctor_terminal_def config_env_def json_defs)
  ultimately show ?thesis
    by (simp add: process_ctor_def process_fields_def bind_err_def ctor_console_def)
qed

lemma getenv_scan_no_eq:
  "CHR ''='' \<notin> set e \<Longrightarrow> \<forall>x \<in> set pre. env_key x \<noteq> e \<Longrightarrow>
   getenv_scan (pre @ e # post) e = Some []"
proof (induction pre)
  case Nil
  then have "find_char CHR ''='' e = None" by (simp add: find_char_None)
  then show ?case by (simp add: substr_to_def)
next
  case (Cons x pre)
  then have "env_key x \<noteq> e" by simp
  from getenv_scan_skip [OF this] Cons show ?case by simp
qed

text \<open>
  C10, as amended. \<open>setenv\<close> stops at its assertion exactly when the environment has an
  entry without \<open>=\<close> that no entry with the key precedes; when an entry with the key
  comes first, the scan returns before it reaches the entry without \<open>=\<close>. The assertion
  is the only way \<open>setenv\<close> fails. Construction accepts any strings as \<open>env\<close>, and
  \<open>getenv\<close> of an entry without \<open>=\<close> (the first with that key) returns the empty
  string.
\<close>

theorem setenv_assertion:
  "(setenv p key val = Inl AssertionFailure \<longleftrightarrow>
      (\<exists>i < length (env p). CHR ''='' \<notin> set (env p ! i)
          \<and> (\<forall>j < i. env_key (env p ! j) \<noteq> key)))
   \<and> (\<forall>x. setenv p key val = Inl x \<longrightarrow> x = AssertionFailure)
   \<and> (\<exists>q. process_ctor fs d (config_env es) None False pf = Inr q \<and> env q = es)
   \<and> (CHR ''='' \<notin> set e \<and> (\<forall>x \<in> set pre. env_key x \<noteq> e) \<longrightarrow>
        getenv (p\<lparr>env := pre @ e # post\<rparr>) e = Some [])"
proof (intro conjI allI impI)
  show "setenv p key val = Inl AssertionFailure \<longleftrightarrow>
      (\<exists>i < length (env p). CHR ''='' \<notin> set (env p ! i)
          \<and> (\<forall>j < i. env_key (env p ! j) \<noteq> key))"
    unfolding setenv_Inl setenv_scan_abort by simp
  show "x = AssertionFailure" if "setenv p key val = Inl x" for x
    using that unfolding setenv_Inl setenv_scan_abort by simp
  show "\<exists>q. process_ctor fs d (config_env es) None False pf = Inr q \<and> env q = es"
    by (simp add: ctor_config_env)
  show "getenv (p\<lparr>env := pre @ e # post\<rparr>) e = Some []"
    if "CHR ''='' \<notin> set e \<and> (\<forall>x \<in> set pre. env_key x \<noteq> e)"
    using that getenv_scan_no_eq [of e pre post] by (simp add: getenv_def)
qed

theorem setenv_assertion_witness:
  "setenv (procv ''sh'' [''PATH=/bin'', ''FOO'']) ''HOME'' ''/'' = Inl AssertionFailure
   \<and> getenv (procv ''sh'' [''PATH=/bin'', ''FOO'']) ''FOO'' = Some []
   \<and> (\<exists>q. process_ctor fs0 init0 (config_env [''PATH=/bin'', ''FOO'']) None False 0 = Inr q
          \<and> env q = [''PATH=/bin'', ''FOO''])"
proof -
  let ?p = "procv ''sh'' [''PATH=/bin'', ''FOO'']"
  have e: "env ?p = [''PATH=/bin'', ''FOO'']" by (simp add: procv_def)
  have k: "env_key ''PATH=/bin'' = ''PATH''" by (simp add: env_key_def)
  have "\<exists>i < length (env ?p). CHR ''='' \<notin> set (env ?p ! i)
      \<and> (\<forall>j < i. env_key (env ?p ! j) \<noteq> ''HOME'')"
    unfolding e by (intro exI [of _ 1]) (simp add: k)
  with setenv_assertion [of ?p "''HOME''" "''/''"]
  have 1: "setenv ?p ''HOME'' ''/'' = Inl AssertionFailure" by blast
  have "getenv (?p\<lparr>env := [''PATH=/bin''] @ ''FOO'' # []\<rparr>) ''FOO'' = Some []"
    using setenv_assertion [of ?p _ _ _ _ _ _ "''FOO''" "[''PATH=/bin'']" "[]"]
    by (simp add: k)
  then have 2: "getenv ?p ''FOO'' = Some []" by (simp add: procv_def getenv_def)
  from setenv_assertion [of _ _ _ fs0 init0 "[''PATH=/bin'', ''FOO'']" 0]
  have 3: "\<exists>q. process_ctor fs0 init0 (config_env [''PATH=/bin'', ''FOO'']) None False 0 = Inr q
          \<and> env q = [''PATH=/bin'', ''FOO'']" by blast
  from 1 2 3 show ?thesis by blast
qed

text \<open>
  The environment \<open>["HOME=/root", "BAR"]\<close> has an entry without \<open>=\<close>, and
  \<open>setenv("HOME", "/")\<close> on it returns normally: the first entry matches, and the scan
  never reaches \<open>BAR\<close>.
\<close>

theorem setenv_assertion_counterexample:
  "setenv (procv ''sh'' [''HOME=/root'', ''BAR'']) ''HOME'' ''/''
     = Inr (procv ''sh'' [''HOME=/'', ''BAR''])
   \<and> CHR ''='' \<notin> set ''BAR''"
  by (simp add: setenv_def procv_def proc0_def substr_to_def)

section \<open>Properties of command validation\<close>

declare path_search.simps [simp del]

lemma split_colon_nonempty: "split_colon s \<noteq> []"
  by (induction s) (auto split: list.splits)

lemma split_colon_None: "find_char CHR '':'' s = None \<Longrightarrow> split_colon s = [s]"
  by (induction s) (auto split: if_splits)

lemma split_colon_Some:
  "find_char CHR '':'' s = Some n \<Longrightarrow> split_colon s = take n s # split_colon (drop (n + 1) s)"
proof (induction s arbitrary: n)
  case Nil
  then show ?case by simp
next
  case (Cons c cs)
  show ?case
  proof (cases "c = CHR '':''")
    case True
    with Cons.prems show ?thesis by simp
  next
    case False
    with Cons.prems obtain m where m: "find_char CHR '':'' cs = Some m" "n = Suc m"
      by auto
    from Cons.IH [OF m(1)] False m(2) show ?thesis by simp
  qed
qed

lemma path_elements_Nil: "path_elements [] = []"
  by (simp add: path_elements_def)

lemma path_elements_step:
  assumes "path \<noteq> []"
  shows "path_elements path =
     substr_to path (find_char CHR '':'' path)
     # path_elements (case find_char CHR '':'' path of None \<Rightarrow> [] | Some n \<Rightarrow> drop (n + 1) path)"
proof (cases "find_char CHR '':'' path")
  case None
  with assms show ?thesis
    by (simp add: path_elements_def split_colon_None substr_to_def)
next
  case (Some n)
  have "split_colon (drop (n + 1) path) \<noteq> []" by (rule split_colon_nonempty)
  with Some show ?thesis
    by (simp add: path_elements_def split_colon_Some substr_to_def Let_def)
qed

lemma eaccess_fst: "fst (eaccess fs c s) = (if x_ok fs c then 0 else - 1)"
  by (cases "fs_eaccess fs c") (simp_all add: eaccess_def x_ok_def)

lemma eaccess_calls: "fs_calls (snd (eaccess fs c s)) = fs_calls s @ [Eaccess c]"
  by (cases "fs_eaccess fs c") (simp_all add: eaccess_def)

lemma tested_Nil: "tested fs [] = []"
  by (simp add: tested_def)

lemma tested_Cons: "tested fs (c # cs) = (if x_ok fs c then [c] else c # tested fs cs)"
  by (simp add: tested_def)

lemma tested_all_fail: "\<forall>c \<in> set cs. \<not> x_ok fs c \<Longrightarrow> tested fs cs = cs"
  by (induction cs) (simp_all add: tested_Nil tested_Cons)

lemma path_search_spec:
  "fst (path_search fs cmd path s)
     = (\<exists>c \<in> set (map (\<lambda>e. path_append e cmd) (path_elements path)). x_ok fs c)
   \<and> fs_calls (snd (path_search fs cmd path s))
     = fs_calls s @ map Eaccess (tested fs (map (\<lambda>e. path_append e cmd) (path_elements path)))"
proof (induction fs cmd path s rule: path_search.induct)
  case (1 fs cmd path s)
  show ?case
  proof (cases "path = []")
    case True
    then show ?thesis
      by (simp add: path_search.simps [of fs cmd "[]" s] path_elements_Nil tested_Nil)
  next
    case False
    define pos where "pos = find_char CHR '':'' path"
    define elt where "elt = substr_to path pos"
    define rest where "rest = (case pos of None \<Rightarrow> [] | Some n \<Rightarrow> drop (n + 1) path)"
    define c where "c = path_append elt cmd"
    have pe: "path_elements path = elt # path_elements rest"
      using path_elements_step [OF False] by (simp add: elt_def rest_def pos_def)
    have ps: "path_search fs cmd path s =
        (if fst (eaccess fs c s) = 0 then (True, snd (eaccess fs c s))
         else path_search fs cmd rest (snd (eaccess fs c s)))"
      using False
      by (simp add: path_search.simps [of fs cmd path s] Let_def c_def elt_def rest_def pos_def
          split: prod.splits)
    show ?thesis
    proof (cases "x_ok fs c")
      case True
      then show ?thesis
        by (simp add: ps pe eaccess_fst eaccess_calls tested_Cons c_def)
    next
      case nok: False
      have "0 < length path" using False by simp
      moreover have "(fst (eaccess fs c s), snd (eaccess fs c s)) = eaccess fs c s" by simp
      moreover have "fst (eaccess fs c s) \<noteq> 0" using nok by (simp add: eaccess_fst)
      ultimately have IH: "fst (path_search fs cmd rest (snd (eaccess fs c s)))
          = (\<exists>c \<in> set (map (\<lambda>e. path_append e cmd) (path_elements rest)). x_ok fs c)
        \<and> fs_calls (snd (path_search fs cmd rest (snd (eaccess fs c s))))
          = fs_calls (snd (eaccess fs c s))
            @ map Eaccess (tested fs (map (\<lambda>e. path_append e cmd) (path_elements rest)))"
        using "1.IH" [of pos elt rest c "fst (eaccess fs c s)" "snd (eaccess fs c s)"]
        by (simp add: pos_def elt_def rest_def c_def)
      from nok IH show ?thesis
        by (simp add: ps pe eaccess_fst eaccess_calls tested_Cons c_def)
    qed
  qed
qed

lemma is_regular_file_calls:
  "fs_calls (snd (is_regular_file fs q s)) = fs_calls s @ [Status q]"
  by (cases "fs_status fs q") (simp_all add: is_regular_file_def)

lemma is_regular_file_fst:
  "fst (is_regular_file fs q s) =
     (case fs_status fs q of Inl e \<Rightarrow> Inl (FilesystemError e q) | Inr t \<Rightarrow> Inr (t = Regular))"
  by (cases "fs_status fs q") (simp_all add: is_regular_file_def)

lemma search_spec:
  "fst (search fs p cmd s) = (\<exists>c \<in> set (path_candidates p cmd). x_ok fs c)"
  "fs_calls (snd (search fs p cmd s)) = fs_calls s @ map Eaccess (tested fs (path_candidates p cmd))"
  by (cases "getenv p ''PATH''";
      simp add: search_def path_candidates_def path_search_spec tested_Nil)+

lemma validate_bare:
  assumes "args p = a0 # rest" "is_bare a0"
  shows "validate fs p s =
     (if fst (search fs p a0 s) then (Inr (), snd (search fs p a0 s))
      else fallback fs p a0 (snd (search fs p a0 s)))"
proof -
  from assms(2) have nb: "\<not> (case a0 of [] \<Rightarrow> False | c # cs \<Rightarrow> c = CHR ''/'')"
    by (cases a0) (simp_all add: is_bare_def)
  show ?thesis
    unfolding validate_def assms(1) search_def fallback_def
    using nb by (simp add: Let_def split: prod.splits)
qed

lemma validate_absolute:
  assumes "args p = a0 # rest" "\<not> is_bare a0"
  shows "validate fs p s =
     (case eaccess fs a0 s of (r, s1) \<Rightarrow>
        if r < 0 then (Inl (SystemError (fs_errno s1) a0), s1)
        else (case is_regular_file fs a0 s1 of
                (Inl e, s2) \<Rightarrow> (Inl e, s2)
              | (Inr b, s2) \<Rightarrow>
                  if \<not> b then (Inl (SystemError EACCES a0), s2) else (Inr (), s2)))"
proof -
  from assms(2) have nb: "(case a0 of [] \<Rightarrow> False | c # cs \<Rightarrow> c = CHR ''/'')"
    by (cases a0) (simp_all add: is_bare_def)
  show ?thesis
    unfolding validate_def assms(1) using nb by (simp add: Let_def)
qed

lemma fallback_fst:
  "fst (fallback fs p a0 s) =
     (if x_ok fs (path_append (cwd p) a0) then
        (case fs_status fs (path_append (cwd p) a0) of
           Inl e \<Rightarrow> Inl (FilesystemError e (path_append (cwd p) a0))
         | Inr t \<Rightarrow> if t = Regular then Inr () else Inl (not_found a0))
      else Inl (not_found a0))"
proof -
  let ?wd = "path_append (cwd p) a0"
  obtain r s2 where e: "eaccess fs ?wd s = (r, s2)" by (cases "eaccess fs ?wd s")
  then have r: "r = (if x_ok fs ?wd then 0 else - 1)"
    using eaccess_fst [of fs ?wd s] by simp
  obtain b s3 where i: "is_regular_file fs ?wd s2 = (b, s3)"
    by (cases "is_regular_file fs ?wd s2")
  then have b: "b = (case fs_status fs ?wd of Inl e \<Rightarrow> Inl (FilesystemError e ?wd)
      | Inr t \<Rightarrow> Inr (t = Regular))"
    using is_regular_file_fst [of fs ?wd s2] by simp
  show ?thesis
    by (cases "fs_status fs ?wd") (simp_all add: fallback_def Let_def e r i b)
qed

lemma fallback_calls:
  "fs_calls (snd (fallback fs p a0 s)) =
     fs_calls s @ Eaccess (path_append (cwd p) a0)
       # (if x_ok fs (path_append (cwd p) a0) then [Status (path_append (cwd p) a0)] else [])"
proof -
  let ?wd = "path_append (cwd p) a0"
  obtain r s2 where e: "eaccess fs ?wd s = (r, s2)" by (cases "eaccess fs ?wd s")
  then have r: "r = (if x_ok fs ?wd then 0 else - 1)"
    and c2: "fs_calls s2 = fs_calls s @ [Eaccess ?wd]"
    using eaccess_fst [of fs ?wd s] eaccess_calls [of fs ?wd s] by simp_all
  obtain b s3 where i: "is_regular_file fs ?wd s2 = (b, s3)"
    by (cases "is_regular_file fs ?wd s2")
  then have c3: "fs_calls s3 = fs_calls s2 @ [Status ?wd]"
    using is_regular_file_calls [of fs ?wd s2] by simp
  show ?thesis
    by (cases b) (simp_all add: fallback_def Let_def e r i c2 c3)
qed

lemma absolute_fst:
  assumes "args p = a0 # rest" "\<not> is_bare a0"
  shows "fst (validate fs p s) = Inr () \<longleftrightarrow> x_ok fs a0 \<and> fs_status fs a0 = Inr Regular"
proof -
  obtain r s1 where e: "eaccess fs a0 s = (r, s1)" by (cases "eaccess fs a0 s")
  then have r: "r = (if x_ok fs a0 then 0 else - 1)"
    using eaccess_fst [of fs a0 s] by simp
  obtain b s2 where i: "is_regular_file fs a0 s1 = (b, s2)"
    by (cases "is_regular_file fs a0 s1")
  then have b: "b = (case fs_status fs a0 of Inl e \<Rightarrow> Inl (FilesystemError e a0)
      | Inr t \<Rightarrow> Inr (t = Regular))"
    using is_regular_file_fst [of fs a0 s1] by simp
  show ?thesis
    by (cases "fs_status fs a0") (simp_all add: validate_absolute [OF assms] e r i b)
qed

lemma absolute_calls:
  assumes "args p = a0 # rest" "\<not> is_bare a0"
  shows "fs_calls (snd (validate fs p s))
     = fs_calls s @ Eaccess a0 # (if x_ok fs a0 then [Status a0] else [])"
proof -
  obtain r s1 where e: "eaccess fs a0 s = (r, s1)" by (cases "eaccess fs a0 s")
  then have r: "r = (if x_ok fs a0 then 0 else - 1)"
    and c1: "fs_calls s1 = fs_calls s @ [Eaccess a0]"
    using eaccess_fst [of fs a0 s] eaccess_calls [of fs a0 s] by simp_all
  obtain b s2 where i: "is_regular_file fs a0 s1 = (b, s2)"
    by (cases "is_regular_file fs a0 s1")
  then have c2: "fs_calls s2 = fs_calls s1 @ [Status a0]"
    using is_regular_file_calls [of fs a0 s1] by simp
  show ?thesis
    by (cases b) (simp_all add: validate_absolute [OF assms] e r i c1 c2)
qed

text \<open>
  C4. For an absolute \<open>args[0]\<close>, validation succeeds exactly when the path has execute
  access and is a regular file. For a bare name, as soon as a candidate of \<open>$PATH\<close> has
  execute access validation succeeds, and it has made no status call: no candidate is
  checked for being a regular file. When no candidate has execute access, validation
  succeeds exactly when the command, resolved against \<open>cwd\<close>, has execute access and is
  a regular file.
\<close>

theorem validate_regular_file_asymmetry:
  "(args p = a0 # rest \<and> \<not> is_bare a0 \<longrightarrow>
      (fst (validate fs p s) = Inr () \<longleftrightarrow> x_ok fs a0 \<and> fs_status fs a0 = Inr Regular)
    \<and> fs_calls (snd (validate fs p s))
        = fs_calls s @ Eaccess a0 # (if x_ok fs a0 then [Status a0] else []))
   \<and> (args p = a0 # rest \<and> is_bare a0 \<and> (\<exists>c \<in> set (path_candidates p a0). x_ok fs c) \<longrightarrow>
      fst (validate fs p s) = Inr ()
    \<and> (\<exists>cs. fs_calls (snd (validate fs p s)) = fs_calls s @ map Eaccess cs))
   \<and> (args p = a0 # rest \<and> is_bare a0 \<and> (\<forall>c \<in> set (path_candidates p a0). \<not> x_ok fs c) \<longrightarrow>
      (fst (validate fs p s) = Inr () \<longleftrightarrow>
         x_ok fs (path_append (cwd p) a0)
         \<and> fs_status fs (path_append (cwd p) a0) = Inr Regular))"
proof (intro conjI impI)
  assume a: "args p = a0 # rest \<and> \<not> is_bare a0"
  then show "fst (validate fs p s) = Inr () \<longleftrightarrow> x_ok fs a0 \<and> fs_status fs a0 = Inr Regular"
    using absolute_fst by blast
  from a show "fs_calls (snd (validate fs p s))
      = fs_calls s @ Eaccess a0 # (if x_ok fs a0 then [Status a0] else [])"
    using absolute_calls by blast
next
  assume a: "args p = a0 # rest \<and> is_bare a0 \<and> (\<exists>c \<in> set (path_candidates p a0). x_ok fs c)"
  then have v: "validate fs p s = (Inr (), snd (search fs p a0 s))"
    using validate_bare [of p a0 rest fs s] by (simp add: search_spec(1))
  then show "fst (validate fs p s) = Inr ()" by simp
  from v have "fs_calls (snd (validate fs p s))
      = fs_calls s @ map Eaccess (tested fs (path_candidates p a0))"
    by (simp add: search_spec(2))
  then show "\<exists>cs. fs_calls (snd (validate fs p s)) = fs_calls s @ map Eaccess cs" ..
next
  assume a: "args p = a0 # rest \<and> is_bare a0 \<and> (\<forall>c \<in> set (path_candidates p a0). \<not> x_ok fs c)"
  then have v: "validate fs p s = fallback fs p a0 (snd (search fs p a0 s))"
    using validate_bare [of p a0 rest fs s] by (simp add: search_spec(1))
  show "fst (validate fs p s) = Inr () \<longleftrightarrow>
      x_ok fs (path_append (cwd p) a0) \<and> fs_status fs (path_append (cwd p) a0) = Inr Regular"
    unfolding v fallback_fst
    by (cases "fs_status fs (path_append (cwd p) a0)") (simp_all add: not_found_def)
qed

lemma path_elements_eval:
  "path_elements ''/'' = [''/'']"
  "path_elements ''/nonexistent:/bin'' = [''/nonexistent'', ''/bin'']"
  "path_elements '':/nonexistent'' = ['''', ''/nonexistent'']"
  "path_elements ''/nonexistent::/bin:'' = [''/nonexistent'', '''', ''/bin'']"
  by (simp_all add: path_elements_def)

lemma getenv_PATH_eval:
  "getenv (procv a [''PATH='' @ v]) ''PATH'' = Some v"
  "getenv (procv a []) ''PATH'' = None"
  by (simp_all add: getenv_def procv_def substr_to_def)

theorem validate_regular_file_asymmetry_witness:
  "fst (validate fs0 (procv ''/bin/true'' []) fstate0) = Inr ()
   \<and> fst (validate fs0 (procv ''/bin'' []) fstate0) \<noteq> Inr ()
   \<and> fs_status fs0 ''/bin'' = Inr Directory
   \<and> fst (validate fs0 (procv ''bin'' [''PATH=/'']) fstate0) = Inr ()
   \<and> fst (validate fs0 (procv ''bin'' []) fstate0) \<noteq> Inr ()"
proof -
  have st: "fs_status fs0 ''/bin'' = Inr Directory" "fs_status fs0 ''/bin/true'' = Inr Regular"
    and x: "x_ok fs0 ''/bin''" "x_ok fs0 ''/bin/true''" "\<not> x_ok fs0 ''/tmp/bin''"
    by (simp_all add: fs0_def x_ok_def)
  have ar: "args (procv a es) = a # []" "cwd (procv a es) = ''/tmp''" for a es
    by (simp_all add: procv_def)
  have c1: "path_candidates (procv ''bin'' [''PATH=/'']) ''bin'' = [''/bin'']"
    using getenv_PATH_eval(1) [of "''bin''" "''/''"]
    by (simp add: path_candidates_def path_elements_eval path_append_def)
  have c2: "path_candidates (procv ''bin'' []) ''bin'' = []"
    by (simp add: path_candidates_def getenv_PATH_eval)
  have 1: "fst (validate fs0 (procv ''/bin/true'' []) fstate0) = Inr ()"
    using validate_regular_file_asymmetry [of "procv ''/bin/true'' []" "''/bin/true''" "[]" fs0 fstate0]
    by (simp add: ar st x is_bare_def)
  have 2: "fst (validate fs0 (procv ''/bin'' []) fstate0) \<noteq> Inr ()"
    using validate_regular_file_asymmetry [of "procv ''/bin'' []" "''/bin''" "[]" fs0 fstate0]
    by (simp add: ar st x is_bare_def)
  have 3: "fst (validate fs0 (procv ''bin'' [''PATH=/'']) fstate0) = Inr ()"
    using validate_regular_file_asymmetry [of "procv ''bin'' [''PATH=/'']" "''bin''" "[]" fs0 fstate0]
    by (simp add: ar c1 x is_bare_def)
  have 4: "fst (validate fs0 (procv ''bin'' []) fstate0) \<noteq> Inr ()"
    using validate_regular_file_asymmetry [of "procv ''bin'' []" "''bin''" "[]" fs0 fstate0]
    by (simp add: ar c2 x is_bare_def path_append_def)
  from 1 2 3 4 st(1) show ?thesis by simp
qed

text \<open>
  C8, as amended. For a bare \<open>args[0]\<close>, the candidates are \<open>segment/args[0]\<close> for the
  pieces of \<open>$PATH\<close> between colons, in order, the empty pieces included (only an empty
  piece at the very end is not visited); the candidate of an empty piece is \<open>args[0]\<close>
  itself. The candidates are tested in order up to the first with execute access, which ends
  validation with success. Only when none has execute access is the command tested against
  \<open>cwd\<close>; when that has no execute access or is not a regular file, the error is
  "not found in $PATH".
\<close>

theorem validate_path_search:
  "(args p = a0 # rest \<and> is_bare a0 \<and> (\<exists>c \<in> set (path_candidates p a0). x_ok fs c) \<longrightarrow>
      fst (validate fs p s) = Inr ()
    \<and> fs_calls (snd (validate fs p s))
        = fs_calls s @ map Eaccess (tested fs (path_candidates p a0)))
   \<and> (args p = a0 # rest \<and> is_bare a0 \<and> (\<forall>c \<in> set (path_candidates p a0). \<not> x_ok fs c) \<longrightarrow>
      fs_calls (snd (validate fs p s))
        = fs_calls s @ map Eaccess (path_candidates p a0)
          @ Eaccess (path_append (cwd p) a0)
          # (if x_ok fs (path_append (cwd p) a0) then [Status (path_append (cwd p) a0)] else [])
    \<and> (x_ok fs (path_append (cwd p) a0)
         \<and> fs_status fs (path_append (cwd p) a0) = Inr Regular \<longrightarrow>
       fst (validate fs p s) = Inr ())
    \<and> (\<not> x_ok fs (path_append (cwd p) a0)
         \<or> (\<exists>t. fs_status fs (path_append (cwd p) a0) = Inr t \<and> t \<noteq> Regular) \<longrightarrow>
       fst (validate fs p s) = Inl (not_found a0)))
   \<and> (\<forall>path. getenv p ''PATH'' = Some path \<longrightarrow>
        path_candidates p a0 = map (\<lambda>e. path_append e a0) (path_elements path))
   \<and> (getenv p ''PATH'' = None \<longrightarrow> path_candidates p a0 = [])
   \<and> path_append [] a0 = a0"
proof (intro conjI impI allI)
  assume a: "args p = a0 # rest \<and> is_bare a0 \<and> (\<exists>c \<in> set (path_candidates p a0). x_ok fs c)"
  then have v: "validate fs p s = (Inr (), snd (search fs p a0 s))"
    using validate_bare [of p a0 rest fs s] by (simp add: search_spec(1))
  then show "fst (validate fs p s) = Inr ()" by simp
  from v show "fs_calls (snd (validate fs p s))
      = fs_calls s @ map Eaccess (tested fs (path_candidates p a0))"
    by (simp add: search_spec(2))
next
  assume a: "args p = a0 # rest \<and> is_bare a0 \<and> (\<forall>c \<in> set (path_candidates p a0). \<not> x_ok fs c)"
  then have v: "validate fs p s = fallback fs p a0 (snd (search fs p a0 s))"
    using validate_bare [of p a0 rest fs s] by (simp add: search_spec(1))
  from a have t: "tested fs (path_candidates p a0) = path_candidates p a0"
    by (intro tested_all_fail) simp
  show "fs_calls (snd (validate fs p s))
      = fs_calls s @ map Eaccess (path_candidates p a0)
        @ Eaccess (path_append (cwd p) a0)
        # (if x_ok fs (path_append (cwd p) a0) then [Status (path_append (cwd p) a0)] else [])"
    unfolding v fallback_calls search_spec(2) t by simp
  show "fst (validate fs p s) = Inr ()"
    if "x_ok fs (path_append (cwd p) a0) \<and> fs_status fs (path_append (cwd p) a0) = Inr Regular"
    using that unfolding v fallback_fst by simp
  show "fst (validate fs p s) = Inl (not_found a0)"
    if "\<not> x_ok fs (path_append (cwd p) a0)
      \<or> (\<exists>t. fs_status fs (path_append (cwd p) a0) = Inr t \<and> t \<noteq> Regular)"
    using that unfolding v fallback_fst by auto
next
  show "path_candidates p a0 = map (\<lambda>e. path_append e a0) (path_elements path)"
    if "getenv p ''PATH'' = Some path" for path
    using that by (simp add: path_candidates_def)
  show "path_candidates p a0 = []" if "getenv p ''PATH'' = None"
    using that by (simp add: path_candidates_def)
  show "path_append [] a0 = a0" by (simp add: path_append_def)
qed

theorem validate_path_search_witness:
  "validate fs0 (procv ''true'' [''PATH=/nonexistent:/bin'']) fstate0
     = (Inr (), \<lparr>fs_calls = [Eaccess ''/nonexistent/true'', Eaccess ''/bin/true''],
                 fs_errno = ENOENT\<rparr>)
   \<and> fs_calls (snd (validate fs0 (procv ''true'' [''PATH=/nonexistent:/bin'']) fstate0))
     = [Eaccess ''/nonexistent/true'', Eaccess ''/bin/true'']
   \<and> fst (validate fs0 (procv ''false'' [''PATH=/nonexistent::/bin:'']) fstate0)
     = Inl (not_found ''false'')
   \<and> fs_calls (snd (validate fs0 (procv ''false'' [''PATH=/nonexistent::/bin:'']) fstate0))
     = [Eaccess ''/nonexistent/false'', Eaccess ''false'', Eaccess ''/bin/false'',
        Eaccess ''/tmp/false'']"
proof -
  let ?p = "procv ''true'' [''PATH=/nonexistent:/bin'']"
  let ?q = "procv ''false'' [''PATH=/nonexistent::/bin:'']"
  have ar: "args (procv a es) = a # []" "cwd (procv a es) = ''/tmp''" for a es
    by (simp_all add: procv_def)
  have x: "\<not> x_ok fs0 ''/nonexistent/true''" "x_ok fs0 ''/bin/true''"
    "\<not> x_ok fs0 ''/nonexistent/false''" "\<not> x_ok fs0 ''false''" "\<not> x_ok fs0 ''/bin/false''"
    "\<not> x_ok fs0 ''/tmp/false''"
    by (simp_all add: fs0_def x_ok_def)
  have c1: "path_candidates ?p ''true'' = [''/nonexistent/true'', ''/bin/true'']"
    using getenv_PATH_eval(1) [of "''true''" "''/nonexistent:/bin''"]
    by (simp add: path_candidates_def path_elements_eval path_append_def)
  have c2: "path_candidates ?q ''false''
      = [''/nonexistent/false'', ''false'', ''/bin/false'']"
    using getenv_PATH_eval(1) [of "''false''" "''/nonexistent::/bin:''"]
    by (simp add: path_candidates_def path_elements_eval path_append_def)
  have 1: "fst (validate fs0 ?p fstate0) = Inr ()
      \<and> fs_calls (snd (validate fs0 ?p fstate0))
        = [Eaccess ''/nonexistent/true'', Eaccess ''/bin/true'']"
    using validate_path_search [of ?p "''true''" "[]" fs0 fstate0]
    by (simp add: ar c1 x is_bare_def tested_Cons fstate0_def)
  have 2: "fst (validate fs0 ?q fstate0) = Inl (not_found ''false'')
      \<and> fs_calls (snd (validate fs0 ?q fstate0))
        = [Eaccess ''/nonexistent/false'', Eaccess ''false'', Eaccess ''/bin/false'',
           Eaccess ''/tmp/false'']"
    using validate_path_search [of ?q "''false''" "[]" fs0 fstate0]
    by (simp add: ar c2 x is_bare_def fstate0_def path_append_def)
  have e: "fs_errno (snd (validate fs0 ?p fstate0)) = ENOENT"
    by (simp add: validate_def procv_def proc0_def getenv_def substr_to_def Let_def
        path_search.simps [of _ _ "_ # _"] path_search.simps [of _ _ "[]"]
        path_append_def eaccess_def fs0_def fstate0_def)
  have "validate fs0 ?p fstate0 = (fst (validate fs0 ?p fstate0),
      \<lparr>fs_calls = fs_calls (snd (validate fs0 ?p fstate0)),
       fs_errno = fs_errno (snd (validate fs0 ?p fstate0))\<rparr>)"
    by (simp add: prod_eq_iff)
  with 1 2 e show ?thesis by simp
qed

text \<open>
  With \<open>$PATH\<close> \<open>:/nonexistent\<close> and only the relative path \<open>true\<close> executable,
  validation tests \<open>true\<close> for the empty first piece and succeeds. The candidates of the
  claim, for the non-empty pieces only, are \<open>/nonexistent/true\<close> alone, which has no
  execute access, as the fallback \<open>/tmp/true\<close> has none.
\<close>

theorem validate_path_search_counterexample:
  "fst (validate fs_relative (procv ''true'' [''PATH=:/nonexistent'']) fstate0) = Inr ()
   \<and> fs_calls (snd (validate fs_relative (procv ''true'' [''PATH=:/nonexistent'']) fstate0))
     = [Eaccess ''true'']
   \<and> spec_candidates '':/nonexistent'' ''true'' = [''/nonexistent/true'']
   \<and> \<not> x_ok fs_relative ''/nonexistent/true''
   \<and> \<not> x_ok fs_relative ''/tmp/true''"
  by (simp add: validate_def procv_def proc0_def getenv_def substr_to_def Let_def
      path_search.simps [of _ _ "_ # _"] path_search.simps [of _ _ "[]"]
      path_append_def eaccess_def fs_relative_def fstate0_def spec_candidates_def x_ok_def)

section \<open>Properties of the wiring of the standard streams\<close>

lemma dup2_calls: "fd_calls (dup2 a b s) = fd_calls s @ [Dup2 a b]"
  by (simp add: dup2_def)

lemma dup2_other: "fd \<noteq> b \<Longrightarrow> fds (dup2 a b s) fd = fds s fd"
  by (simp add: dup2_def split: option.splits)

lemma dup2_target:
  "0 \<le> a \<Longrightarrow> a \<noteq> b \<Longrightarrow> fds s a = Some en \<Longrightarrow>
   fds (dup2 a b s) b = Some (en\<lparr>cloexec := False\<rparr>)"
  by (simp add: dup2_def)

lemma dup2_open: "is_open s fd \<Longrightarrow> is_open (dup2 a b s) fd"
  by (simp add: dup2_def is_open_def split: option.splits)

lemma to_u_int_id: "0 \<le> i \<Longrightarrow> i \<le> INT_MAX \<Longrightarrow> to_u_int i = i"
  by (simp add: to_u_int_def INT_MAX_def)

lemma close_range_cloexec_calls:
  "fd_calls (close_range lo hi fl s) = fd_calls s @ [CloseRange lo hi fl]"
  by (simp add: close_range_def)

lemma close_range_cloexec_fds:
  "lo \<le> hi \<Longrightarrow> fds (close_range lo hi CLOSE_RANGE_CLOEXEC s) fd =
     (if lo \<le> fd \<and> fd \<le> hi then mark_cloexec (fds s fd) else fds s fd)"
  by (simp add: close_range_def mark_cloexec_def)

lemma exec_stdio_wired:
  "exec_stdio p fin fout ferr s =
     close_range (to_u_int (3 + preserve_fds p)) (to_u_int INT_MAX) CLOSE_RANGE_CLOEXEC
       (wired fin fout ferr s)"
  by (simp add: exec_stdio_def wired_def Let_def)

lemma wired_calls:
  "fd_calls (wired fin fout ferr s) =
     fd_calls s @ (if fin \<noteq> 0 then [Dup2 fin 0] else [])
       @ (if fout \<noteq> 1 then [Dup2 fout 1] else [])
       @ (if ferr \<noteq> 2 then [Dup2 ferr 2] else [])"
  by (simp add: wired_def Let_def dup2_calls)

lemma wired_other: "3 \<le> fd \<Longrightarrow> fds (wired fin fout ferr s) fd = fds s fd"
  by (simp add: wired_def Let_def dup2_other)

lemma wired_open: "is_open s fd \<Longrightarrow> is_open (wired fin fout ferr s) fd"
  by (simp add: wired_def Let_def dup2_open)

lemma wired_stdin:
  "fds (wired fin fout ferr s) 0 = (if fin \<noteq> 0 then fds (dup2 fin 0 s) 0 else fds s 0)"
  by (simp add: wired_def Let_def dup2_other)

lemma wired_stdout:
  "fout \<noteq> 0 \<Longrightarrow>
   fds (wired fin fout ferr s) 1 = (if fout \<noteq> 1 then fds (dup2 fout 1 s) 1 else fds s 1)"
  by (simp add: wired_def Let_def dup2_other dup2_def split: option.splits)

lemma wired_stderr:
  "ferr \<noteq> 0 \<Longrightarrow> ferr \<noteq> 1 \<Longrightarrow>
   fds (wired fin fout ferr s) 2 = (if ferr \<noteq> 2 then fds (dup2 ferr 2 s) 2 else fds s 2)"
  by (simp add: wired_def Let_def dup2_other dup2_def split: option.splits)

lemma mark_cloexec_None: "mark_cloexec x = None \<longleftrightarrow> x = None"
  by (simp add: mark_cloexec_def)

lemma exec_stdio_fds:
  assumes "0 \<le> preserve_fds p" "preserve_fds p \<le> INT_MAX - 3"
  shows "fds (exec_stdio p fin fout ferr s) fd =
     (if 3 + preserve_fds p \<le> fd \<and> fd \<le> INT_MAX then mark_cloexec (fds s fd)
      else fds (wired fin fout ferr s) fd)"
proof -
  from assms have u: "to_u_int (3 + preserve_fds p) = 3 + preserve_fds p"
    "to_u_int INT_MAX = INT_MAX" "3 + preserve_fds p \<le> INT_MAX"
    by (simp_all add: to_u_int_id INT_MAX_def)
  show ?thesis
    using assms(1) by (simp add: exec_stdio_wired u close_range_cloexec_fds wired_other)
qed

text \<open>
  C2, as amended. With \<open>0 \<le> preserve_fds\<close> (and \<open>3 + preserve_fds\<close> an \<open>int\<close>):
  \<open>dup2\<close> is called for stdin, stdout and stderr, in this order, and only for a chosen
  descriptor that differs from its target 0, 1, 2; then \<open>close_range\<close> is called once,
  with \<open>CLOSE_RANGE_CLOEXEC\<close>. After it every descriptor from \<open>3 + preserve_fds\<close> up
  is open exactly when it was open before, now with its close-on-exec flag set: none is
  closed by this step. Descriptors from 3 to \<open>2 + preserve_fds\<close> are untouched, and an
  open descriptor among 0, 1, 2 stays open. A chosen descriptor that is open and not itself
  one of the targets written earlier is duplicated onto its target with the flag cleared.
\<close>

theorem exec_stdio_cloexec:
  assumes "0 \<le> preserve_fds p" and "preserve_fds p \<le> INT_MAX - 3"
  shows "fd_calls (exec_stdio p fin fout ferr s)
       = fd_calls s @ (if fin \<noteq> 0 then [Dup2 fin 0] else [])
         @ (if fout \<noteq> 1 then [Dup2 fout 1] else [])
         @ (if ferr \<noteq> 2 then [Dup2 ferr 2] else [])
         @ [CloseRange (3 + preserve_fds p) INT_MAX CLOSE_RANGE_CLOEXEC]
     \<and> (\<forall>fd. 3 + preserve_fds p \<le> fd \<and> fd \<le> INT_MAX \<longrightarrow>
           fds (exec_stdio p fin fout ferr s) fd = mark_cloexec (fds s fd)
         \<and> (is_open (exec_stdio p fin fout ferr s) fd \<longleftrightarrow> is_open s fd))
     \<and> (\<forall>fd. 3 \<le> fd \<and> fd < 3 + preserve_fds p \<longrightarrow>
           fds (exec_stdio p fin fout ferr s) fd = fds s fd)
     \<and> (\<forall>fd. 0 \<le> fd \<and> fd < 3 \<and> is_open s fd \<longrightarrow> is_open (exec_stdio p fin fout ferr s) fd)
     \<and> (fin = 0 \<longrightarrow> fds (exec_stdio p fin fout ferr s) 0 = fds s 0)
     \<and> (\<forall>en. 0 < fin \<and> fds s fin = Some en \<longrightarrow>
           fds (exec_stdio p fin fout ferr s) 0 = Some (en\<lparr>cloexec := False\<rparr>))
     \<and> (fout = 1 \<longrightarrow> fds (exec_stdio p fin fout ferr s) 1 = fds s 1)
     \<and> (\<forall>en. 1 < fout \<and> fds s fout = Some en \<longrightarrow>
           fds (exec_stdio p fin fout ferr s) 1 = Some (en\<lparr>cloexec := False\<rparr>))
     \<and> (ferr = 2 \<longrightarrow> fds (exec_stdio p fin fout ferr s) 2 = fds s 2)
     \<and> (\<forall>en. 2 < ferr \<and> fds s ferr = Some en \<longrightarrow>
           fds (exec_stdio p fin fout ferr s) 2 = Some (en\<lparr>cloexec := False\<rparr>))"
proof -
  note f = exec_stdio_fds [OF assms]
  from assms have u: "to_u_int (3 + preserve_fds p) = 3 + preserve_fds p"
    "to_u_int INT_MAX = INT_MAX"
    by (simp_all add: to_u_int_id INT_MAX_def)
  have 1: "fd_calls (exec_stdio p fin fout ferr s)
       = fd_calls s @ (if fin \<noteq> 0 then [Dup2 fin 0] else [])
         @ (if fout \<noteq> 1 then [Dup2 fout 1] else [])
         @ (if ferr \<noteq> 2 then [Dup2 ferr 2] else [])
         @ [CloseRange (3 + preserve_fds p) INT_MAX CLOSE_RANGE_CLOEXEC]"
    by (simp add: exec_stdio_wired close_range_cloexec_calls wired_calls u)
  have 2: "\<forall>fd. 3 + preserve_fds p \<le> fd \<and> fd \<le> INT_MAX \<longrightarrow>
           fds (exec_stdio p fin fout ferr s) fd = mark_cloexec (fds s fd)
         \<and> (is_open (exec_stdio p fin fout ferr s) fd \<longleftrightarrow> is_open s fd)"
    by (simp add: f is_open_def mark_cloexec_None del: not_None_eq)
  have 3: "\<forall>fd. 3 \<le> fd \<and> fd < 3 + preserve_fds p \<longrightarrow>
           fds (exec_stdio p fin fout ferr s) fd = fds s fd"
    by (simp add: f wired_other)
  have 4: "\<forall>fd. 0 \<le> fd \<and> fd < 3 \<and> is_open s fd \<longrightarrow> is_open (exec_stdio p fin fout ferr s) fd"
  proof (intro allI impI)
    fix fd assume a: "0 \<le> fd \<and> fd < 3 \<and> is_open s fd"
    with assms(1) have "fds (exec_stdio p fin fout ferr s) fd = fds (wired fin fout ferr s) fd"
      by (simp add: f)
    moreover from a have "is_open (wired fin fout ferr s) fd" by (simp add: wired_open)
    ultimately show "is_open (exec_stdio p fin fout ferr s) fd" by (simp add: is_open_def)
  qed
  have 5: "fin = 0 \<longrightarrow> fds (exec_stdio p fin fout ferr s) 0 = fds s 0"
    using assms(1) by (simp add: f wired_stdin)
  have 6: "\<forall>en. 0 < fin \<and> fds s fin = Some en \<longrightarrow>
           fds (exec_stdio p fin fout ferr s) 0 = Some (en\<lparr>cloexec := False\<rparr>)"
    using assms(1) by (simp add: f wired_stdin dup2_target)
  have 7: "fout = 1 \<longrightarrow> fds (exec_stdio p fin fout ferr s) 1 = fds s 1"
    using assms(1) by (simp add: f wired_stdout)
  have 8: "\<forall>en. 1 < fout \<and> fds s fout = Some en \<longrightarrow>
           fds (exec_stdio p fin fout ferr s) 1 = Some (en\<lparr>cloexec := False\<rparr>)"
    using assms(1) by (simp add: f wired_stdout dup2_target)
  have 9: "ferr = 2 \<longrightarrow> fds (exec_stdio p fin fout ferr s) 2 = fds s 2"
    using assms(1) by (simp add: f wired_stderr)
  have 10: "\<forall>en. 2 < ferr \<and> fds s ferr = Some en \<longrightarrow>
           fds (exec_stdio p fin fout ferr s) 2 = Some (en\<lparr>cloexec := False\<rparr>)"
    using assms(1) by (simp add: f wired_stderr dup2_target)
  from 1 2 3 4 5 6 7 8 9 10 show ?thesis by blast
qed

theorem exec_stdio_cloexec_witness:
  "fd_calls (exec_stdio (proc0\<lparr>preserve_fds := 1\<rparr>) 7 7 2 fdstate0)
     = [Dup2 7 0, Dup2 7 1, CloseRange 4 INT_MAX CLOSE_RANGE_CLOEXEC]
   \<and> fds (exec_stdio (proc0\<lparr>preserve_fds := 1\<rparr>) 7 7 2 fdstate0) 0
     = Some \<lparr>ofile = 7, cloexec = False\<rparr>
   \<and> fds (exec_stdio (proc0\<lparr>preserve_fds := 1\<rparr>) 7 7 2 fdstate0) 2
     = Some \<lparr>ofile = 2, cloexec = False\<rparr>
   \<and> fds (exec_stdio (proc0\<lparr>preserve_fds := 1\<rparr>) 7 7 2 fdstate0) 3
     = Some \<lparr>ofile = 3, cloexec = False\<rparr>
   \<and> fds (exec_stdio (proc0\<lparr>preserve_fds := 1\<rparr>) 7 7 2 fdstate0) 5
     = Some \<lparr>ofile = 5, cloexec = True\<rparr>
   \<and> fds (exec_stdio (proc0\<lparr>preserve_fds := 1\<rparr>) 7 7 2 fdstate0) 6 = None
   \<and> is_open (exec_stdio (proc0\<lparr>preserve_fds := 1\<rparr>) 7 7 2 fdstate0) 7"
proof -
  let ?p = "proc0\<lparr>preserve_fds := 1\<rparr>"
  have p: "preserve_fds ?p = 1" by simp
  have h: "0 \<le> preserve_fds ?p" "preserve_fds ?p \<le> INT_MAX - 3"
    by (simp_all add: INT_MAX_def)
  have t: "fds fdstate0 7 = Some \<lparr>ofile = 7, cloexec = False\<rparr>"
    "fds fdstate0 2 = Some \<lparr>ofile = 2, cloexec = False\<rparr>"
    "fds fdstate0 3 = Some \<lparr>ofile = 3, cloexec = False\<rparr>"
    "fds fdstate0 5 = Some \<lparr>ofile = 5, cloexec = False\<rparr>"
    "fds fdstate0 6 = None" "fd_calls fdstate0 = []"
    by (simp_all add: fdstate0_def)
  note w = exec_stdio_cloexec [OF h, of 7 7 2 fdstate0, unfolded p]
  have 1: "fd_calls (exec_stdio ?p 7 7 2 fdstate0)
     = [Dup2 7 0, Dup2 7 1, CloseRange 4 INT_MAX CLOSE_RANGE_CLOEXEC]"
    using w by (simp add: t)
  have 2: "fds (exec_stdio ?p 7 7 2 fdstate0) 0 = Some \<lparr>ofile = 7, cloexec = False\<rparr>"
    using w t(1) by simp
  have 3: "fds (exec_stdio ?p 7 7 2 fdstate0) 2 = Some \<lparr>ofile = 2, cloexec = False\<rparr>"
    using w t(2) by simp
  have 4: "fds (exec_stdio ?p 7 7 2 fdstate0) 3 = Some \<lparr>ofile = 3, cloexec = False\<rparr>"
    using w t(3) by simp
  have "(4::int) \<le> 5 \<and> 5 \<le> INT_MAX" "(4::int) \<le> 6 \<and> 6 \<le> INT_MAX"
    "(4::int) \<le> 7 \<and> 7 \<le> INT_MAX"
    by (simp_all add: INT_MAX_def)
  with w have 5: "fds (exec_stdio ?p 7 7 2 fdstate0) 5 = mark_cloexec (fds fdstate0 5)"
    and 6: "fds (exec_stdio ?p 7 7 2 fdstate0) 6 = mark_cloexec (fds fdstate0 6)"
    and 7: "is_open (exec_stdio ?p 7 7 2 fdstate0) 7 \<longleftrightarrow> is_open fdstate0 7"
    by simp_all
  from 1 2 3 4 5 6 7 show ?thesis
    by (simp add: t mark_cloexec_def is_open_def)
qed

text \<open>
  With descriptors 0, 1, 2, 3, 5 and 7 open and \<open>preserve_fds = 0\<close>, descriptors 3, 5
  and 7 are still open after the step; only their close-on-exec flag is set.
\<close>

theorem exec_stdio_cloexec_counterexample:
  "preserve_fds proc0 = 0
   \<and> is_open (exec_stdio proc0 0 1 2 fdstate0) 3
   \<and> is_open (exec_stdio proc0 0 1 2 fdstate0) 5
   \<and> fds (exec_stdio proc0 0 1 2 fdstate0) 7 = Some \<lparr>ofile = 7, cloexec = True\<rparr>"
  by (simp add: exec_stdio_def close_range_def to_u_int_def INT_MAX_def is_open_def
      fdstate0_def proc0_def Let_def)

end
